theory Spec2Isabelle
  imports Main "HOL-Library.Word" "HOL-Library.Sublist"
begin

section \<open>Levels\<close>

text \<open>
  The package \<open>logger\<close> is a facade over the zap logging library. zap's \<open>zapcore.Level\<close>
  is an \<open>int8\<close> with seven named values; the source re-exports them as the constants
  \<open>INFO\<close> .. \<open>DEBUG\<close> (lines 15-23), with the numeric codes written in the comments there.
\<close>

datatype Level =
  DebugLevel | InfoLevel | WarnLevel | ErrorLevel | DPanicLevel | PanicLevel | FatalLevel

fun level_code :: "Level \<Rightarrow> int" where
  "level_code DebugLevel = -1"
| "level_code InfoLevel = 0"
| "level_code WarnLevel = 1"
| "level_code ErrorLevel = 2"
| "level_code DPanicLevel = 3"
| "level_code PanicLevel = 4"
| "level_code FatalLevel = 5"

definition INFO :: Level where "INFO = InfoLevel"
definition WARN :: Level where "WARN = WarnLevel"
definition ERROR :: Level where "ERROR = ErrorLevel"
definition DPANIC :: Level where "DPANIC = DPanicLevel"
definition PANIC :: Level where "PANIC = PanicLevel"
definition FATAL :: Level where "FATAL = FatalLevel"
definition DEBUG :: Level where "DEBUG = DebugLevel"

text \<open>
  \<open>GetLevel\<close> (lines 25-44): a \<open>switch\<close> on the string, first matching case wins,
  \<open>default\<close> last. The case \<open>"DPANIC"\<close> returns \<open>PANIC\<close>, as the source has it.
\<close>

definition GetLevel :: "string \<Rightarrow> Level" where
  "GetLevel l =
     (if l = ''INFO'' then INFO
      else if l = ''WARN'' then WARN
      else if l = ''ERROR'' then ERROR
      else if l = ''DPANIC'' then PANIC
      else if l = ''PANIC'' then PANIC
      else if l = ''FATAL'' then FATAL
      else if l = ''DEBUG'' then DEBUG
      else INFO)"

section \<open>Values, configuration and the zap objects the facade builds\<close>

text \<open>\<open>config.Logger\<close> and \<open>config.Config\<close> (config/models.go).\<close>

record Logger =
  LogFileName :: string
  LoggingLevel :: string
  LogFileSizeCappingInMBs :: int
  MaxLogBackupsCount :: int
  MaxOldLogRetentionInDays :: int
  OldLogsCompressionRequired :: bool

record Config =
  Logger_of :: Logger

text \<open>
  A value held in an \<open>interface{}\<close>: its dynamic type and its value. Only the shapes the
  functions below distinguish are spelled out; \<open>VOther T\<close> stands for a value of any
  other dynamic type \<open>T\<close> that does not implement \<open>error\<close>. \<open>VError m\<close> is a non-nil value
  that implements \<open>error\<close> and whose \<open>Error()\<close> method returns the text \<open>m\<close>.
  \<open>VLoggerPtr\<close> is a \<open>*config.Logger\<close> (\<open>None\<close>: the nil pointer of that type),
  \<open>VNil\<close> the nil interface.
\<close>

datatype go_value =
    VNil
  | VLogger Logger
  | VLoggerPtr "Logger option"
  | VConfig Config
  | VString string
  | VInt int
  | VBool bool
  | VError string
  | VOther string

text \<open>Run-time panics of the Go runtime that the modelled code can raise.\<close>

datatype panic =
    TypeAssertionFailed
  | IndexOutOfRange int nat
  | MakechanSizeOutOfRange

text \<open>\<open>lumberjack.Logger\<close>: the rotation parameters (a field left out of a literal is zero).\<close>

record lumberjack_Logger =
  Filename :: string
  MaxSize :: int
  MaxAge :: int
  MaxBackups :: int
  LocalTime :: bool
  Compress :: bool

text \<open>\<open>zap.Field\<close>, with the three members the source sets.\<close>

record Field =
  Key :: string
  Type :: nat
  String :: string

record EncoderConfig =
  MessageKey :: string
  LevelKey :: string
  EncodeLevel :: string
  TimeKey :: string
  EncodeTime :: string
  CallerKey :: string
  EncodeCaller :: string
  LineEnding :: string

record zap_Config =
  Encoding :: string
  Level_of :: Level
  OutputPaths :: "string list"
  ErrorOutputPaths :: "string list"
  EncoderConfig_of :: EncoderConfig

text \<open>
  A \<open>*zap.Logger\<close> is described by how it was obtained: \<open>Built cfg\<close> is the logger that
  \<open>cfg.Build()\<close> returned, \<open>Example\<close> the one of \<open>zap.NewExample()\<close>. A
  \<open>*zap.SugaredLogger\<close> is its base logger with the options applied through
  \<open>WithOptions\<close>: the number of caller frames skipped and the fields attached.
\<close>

datatype zap_Logger = Built zap_Config | Example

record SugaredLogger =
  base :: zap_Logger
  callerSkip :: int
  ctx_fields :: "Field list"

definition Sugar :: "zap_Logger \<Rightarrow> SugaredLogger" where
  "Sugar l = \<lparr>base = l, callerSkip = 0, ctx_fields = []\<rparr>"

definition AddCallerSkip :: "int \<Rightarrow> SugaredLogger \<Rightarrow> SugaredLogger" where
  "AddCallerSkip k s = s\<lparr>callerSkip := callerSkip s + k\<rparr>"

definition Fields :: "Field list \<Rightarrow> SugaredLogger \<Rightarrow> SugaredLogger" where
  "Fields fs s = s\<lparr>ctx_fields := ctx_fields s @ fs\<rparr>"

text \<open>
  Where a zap logger writes: a built logger to the output paths of its configuration,
  the example logger to standard output.
\<close>

fun output_paths :: "zap_Logger \<Rightarrow> string list" where
  "output_paths (Built cfg) = OutputPaths cfg"
| "output_paths Example = [''stdout'']"

text \<open>\<open>standardLogger\<close> (lines 125-128); \<open>log\<close> is nil when \<open>cfg.Build()\<close> failed.\<close>

record standardLogger =
  logger :: SugaredLogger
  log_of :: "zap_Logger option"

text \<open>
  What a call of the facade does to the outside, in program order: a line printed with
  \<open>fmt.Println\<close>, a sink registered with zap, and a leveled call on a sugared logger with
  its positional arguments (the record the facade hands to zap). Whether zap then writes
  the record depends on the level of that logger, which the model carries in the
  logger's configuration; \<open>written\<close> below interprets it.
\<close>

datatype effect =
    Println string
  | RegisterSink string lumberjack_Logger
  | SugarLog SugaredLogger Level "go_value list"

section \<open>The error-level method\<close>

text \<open>
  \<open>standardLogger.Error\<close> (lines 260-273). \<open>args[len(args)-1]\<close> is an index expression:
  on the empty slice the index is \<open>-1\<close> and the runtime panics before the type assertion
  is evaluated. The comma-ok assertion \<open>.(error)\<close> succeeds exactly on a non-nil value
  implementing \<open>error\<close>. \<open>append(args[:len(args)-1], " ", errString)\<close> is the argument list
  without its last element, followed by the two strings. \<open>Type: 15\<close> is written as in the
  source.
\<close>

definition response_field :: "string \<Rightarrow> Field" where
  "response_field m = \<lparr>Key = ''response_message'', Type = 15, String = m\<rparr>"

definition Error :: "standardLogger \<Rightarrow> go_value list \<Rightarrow> effect list \<times> panic option" where
  "Error s args =
     (if args = [] then ([], Some (IndexOutOfRange (-1) 0))
      else
        (case last args of
           VError errString \<Rightarrow>
             ([Println (''errString '' @ errString @ [CHR 0x0A]),
               SugarLog (Fields [response_field errString] (logger s)) ErrorLevel
                 (butlast args @ [VString '' '', VString errString])],
              None)
         | _ \<Rightarrow>
             ([SugarLog (Fields [response_field ''unknown''] (logger s)) ErrorLevel args],
              None)))"

text \<open>The sibling \<open>Info\<close> (lines 295-308) passes its arguments on as they are.\<close>

definition Info :: "standardLogger \<Rightarrow> go_value list \<Rightarrow> effect list \<times> panic option" where
  "Info s args = ([SugarLog (logger s) InfoLevel args], None)"

section \<open>Building the logger\<close>

text \<open>
  \<open>strings.TrimSpace\<close> of the Go library, on the bytes of the string: it removes, at both
  ends, every rune for which \<open>unicode.IsSpace\<close> holds. Those are the six ASCII characters of
  the library's \<open>asciiSpace\<close> table and U+0085, U+00A0, U+1680, U+2000..U+200A, U+2028,
  U+2029, U+202F, U+205F and U+3000, listed here by their UTF-8 encodings. A rune is
  decoded at the front exactly when its encoding is a prefix, and at the back exactly when
  its encoding is a suffix; bytes that do not decode are not white space.
\<close>

definition spaceRunes :: "string list" where
  "spaceRunes =
     [[CHR 0x09], [CHR 0x0A], [CHR 0x0B], [CHR 0x0C], [CHR 0x0D], [CHR 0x20],
      [CHR 0xC2, CHR 0x85], [CHR 0xC2, CHR 0xA0],
      [CHR 0xE1, CHR 0x9A, CHR 0x80],
      [CHR 0xE2, CHR 0x80, CHR 0x80], [CHR 0xE2, CHR 0x80, CHR 0x81],
      [CHR 0xE2, CHR 0x80, CHR 0x82], [CHR 0xE2, CHR 0x80, CHR 0x83],
      [CHR 0xE2, CHR 0x80, CHR 0x84], [CHR 0xE2, CHR 0x80, CHR 0x85],
      [CHR 0xE2, CHR 0x80, CHR 0x86], [CHR 0xE2, CHR 0x80, CHR 0x87],
      [CHR 0xE2, CHR 0x80, CHR 0x88], [CHR 0xE2, CHR 0x80, CHR 0x89],
      [CHR 0xE2, CHR 0x80, CHR 0x8A],
      [CHR 0xE2, CHR 0x80, CHR 0xA8], [CHR 0xE2, CHR 0x80, CHR 0xA9],
      [CHR 0xE2, CHR 0x80, CHR 0xAF], [CHR 0xE2, CHR 0x81, CHR 0x9F],
      [CHR 0xE3, CHR 0x80, CHR 0x80]]"

definition leadingSpace :: "string \<Rightarrow> nat" where
  "leadingSpace s =
     (case List.find (\<lambda>w. take (length w) s = w) spaceRunes of
        None \<Rightarrow> 0
      | Some w \<Rightarrow> length w)"

definition trailingSpace :: "string \<Rightarrow> nat" where
  "trailingSpace s =
     (case List.find (\<lambda>w. length w \<le> length s \<and> drop (length s - length w) s = w) spaceRunes of
        None \<Rightarrow> 0
      | Some w \<Rightarrow> length w)"

function TrimLeftSpace :: "string \<Rightarrow> string" where
  "TrimLeftSpace s =
     (if leadingSpace s = 0 then s else TrimLeftSpace (drop (leadingSpace s) s))"
  by pat_completeness auto
termination
proof (relation "measure length")
  show "wf (measure length)" by simp
next
  fix s :: string
  assume a: "leadingSpace s \<noteq> 0"
  then obtain w where w: "List.find (\<lambda>w. take (length w) s = w) spaceRunes = Some w"
    by (auto simp: leadingSpace_def split: option.splits)
  have "leadingSpace s = length w"
    by (simp add: leadingSpace_def w)
  moreover from w have "take (length w) s = w"
    by (auto simp: find_Some_iff)
  ultimately
  have "s \<noteq> []" using a by auto
  with a show "(drop (leadingSpace s) s, s) \<in> measure length" by simp
qed

function TrimRightSpace :: "string \<Rightarrow> string" where
  "TrimRightSpace s =
     (if trailingSpace s = 0 then s
      else TrimRightSpace (take (length s - trailingSpace s) s))"
  by pat_completeness auto
termination
proof (relation "measure length")
  show "wf (measure length)" by simp
next
  fix s :: string
  assume a: "trailingSpace s \<noteq> 0"
  then obtain w where
    w: "List.find (\<lambda>w. length w \<le> length s \<and> drop (length s - length w) s = w) spaceRunes = Some w"
    by (auto simp: trailingSpace_def split: option.splits)
  have "trailingSpace s = length w"
    by (simp add: trailingSpace_def w)
  moreover from w have "length w \<le> length s"
    by (auto simp: find_Some_iff)
  ultimately
  have "s \<noteq> []" using a by auto
  with a show "(take (length s - trailingSpace s) s, s) \<in> measure length" by simp
qed

definition TrimSpace :: "string \<Rightarrow> string" where
  "TrimSpace s = TrimRightSpace (TrimLeftSpace s)"

text \<open>
  \<open>getConfigFromInterface\<close> (lines 172-175): the single-value type assertion
  \<open>confi.(config.Logger)\<close> yields the value when the dynamic type is \<open>config.Logger\<close> and
  panics on every other dynamic type and on the nil interface.
\<close>

definition getConfigFromInterface :: "go_value \<Rightarrow> panic + Logger" where
  "getConfigFromInterface confi =
     (case confi of VLogger conf \<Rightarrow> Inr conf | _ \<Rightarrow> Inl TypeAssertionFailed)"

text \<open>
  \<open>NewService\<close> (lines 178-242). \<open>Build\<close> stands for \<open>cfg.Build()\<close> of the zap library: the
  error it returns for a configuration (\<open>None\<close> for nil), which depends on the file system
  and is taken as given. The result is the effects in program order and the returned
  \<open>*standardLogger\<close>, or the panic. \<open>zap.RegisterSink\<close>'s own error is dropped by the
  source. The deferred \<open>sugar.Sync()\<close> has no effect the model records. The body is
  split in three: the \<open>encoderConfig\<close> literal, the sink registration, and the \<open>zap.Config\<close>.
\<close>

definition encoderConfig :: EncoderConfig where
  "encoderConfig =
     \<lparr>MessageKey = ''message'',
      LevelKey = ''level'', EncodeLevel = ''CapitalLevelEncoder'',
      TimeKey = ''time'', EncodeTime = ''ISO8601TimeEncoder'',
      CallerKey = ''caller'', EncodeCaller = ''FullCallerEncoder'',
      LineEnding = [CHR 0x0A]\<rparr>"

text \<open>
  Lines 200-214: when the trimmed file name is not empty, a sink named \<open>lumberjack\<close> is
  registered with the rotation parameters of the configuration.
\<close>

definition service_sink :: "Logger \<Rightarrow> effect list" where
  "service_sink conf =
     (if TrimSpace (LogFileName conf) \<noteq> []
      then [RegisterSink ''lumberjack''
              \<lparr>Filename = LogFileName conf,
               MaxSize = LogFileSizeCappingInMBs conf,
               MaxAge = MaxOldLogRetentionInDays conf,
               MaxBackups = MaxLogBackupsCount conf,
               LocalTime = False,
               Compress = OldLogsCompressionRequired conf\<rparr>]
      else [])"

text \<open>
  Lines 181-182 and 216-226: the \<open>zap.Config\<close>, with the level resolved from the
  configuration, standard output as the first output path and the file name (untrimmed)
  appended when its trimmed form is not empty.
\<close>

definition service_cfg :: "Logger \<Rightarrow> zap_Config" where
  "service_cfg conf =
     (let atom = GetLevel (LoggingLevel conf);
          cfg = \<lparr>Encoding = ''json'', Level_of = atom,
                 OutputPaths = [''stdout''], ErrorOutputPaths = [''stderr''],
                 EncoderConfig_of = encoderConfig\<rparr>
      in if TrimSpace (LogFileName conf) \<noteq> []
         then cfg\<lparr>OutputPaths := OutputPaths cfg @ [LogFileName conf]\<rparr>
         else cfg)"

definition NewService ::
    "(zap_Config \<Rightarrow> string option) \<Rightarrow> go_value \<Rightarrow> effect list \<times> (panic + standardLogger)" where
  "NewService Build config =
     (case getConfigFromInterface config of
        Inl p \<Rightarrow> ([], Inl p)
      | Inr conf \<Rightarrow>
          (let registered = service_sink conf;
               cfg = service_cfg conf;
               nerr = Build cfg
           in if nerr \<noteq> None
              then (let sugar = Sugar Example
                    in (registered @
                          [SugarLog sugar ErrorLevel [VString ''Was unable to create logger file!''],
                           SugarLog sugar ErrorLevel
                             [VString ''Was unable to create desired logger, running on simple logger!'']],
                        Inr \<lparr>logger = AddCallerSkip 1 sugar, log_of = None\<rparr>))
              else (let sugar = Sugar (Built cfg)
                    in (registered @
                          [SugarLog sugar ErrorLevel [VString ''Was unable to create logger file!'']],
                        Inr \<lparr>logger = AddCallerSkip 1 sugar, log_of = Some (Built cfg)\<rparr>))))"

text \<open>The leveled calls among the effects: level and positional arguments, in order.\<close>

fun emitted :: "effect list \<Rightarrow> (Level \<times> go_value list) list" where
  "emitted [] = []"
| "emitted (SugarLog l lvl args # es) = (lvl, args) # emitted es"
| "emitted (_ # es) = emitted es"

text \<open>
  What zap does with a leveled call. A logger has a threshold: a built logger the level
  of its configuration (lines 181-182 and 218), the example logger the debug level.
  zap writes the record of a call exactly when the call's level is at or above the
  threshold of the logger it is made on (\<open>zapcore.Level.Enabled\<close>, by the numeric codes);
  otherwise it drops the call. \<open>written\<close> lists the records zap writes for the calls among
  the effects, in order.
\<close>

fun threshold :: "zap_Logger \<Rightarrow> Level" where
  "threshold (Built cfg) = Level_of cfg"
| "threshold Example = DebugLevel"

definition Enabled :: "Level \<Rightarrow> Level \<Rightarrow> bool" where
  "Enabled t lvl \<longleftrightarrow> level_code t \<le> level_code lvl"

fun written :: "effect list \<Rightarrow> (Level \<times> go_value list) list" where
  "written [] = []"
| "written (SugarLog l lvl args # es) =
     (if Enabled (threshold (base l)) lvl then (lvl, args) # written es else written es)"
| "written (_ # es) = written es"

text \<open>
  Two environments: one where \<open>cfg.Build()\<close> succeeds on every configuration, and one
  where the directory \<open>/nonexistent\<close> does not exist, so that zap cannot open the file
  \<open>/nonexistent/app.log\<close> and \<open>cfg.Build()\<close> fails on a configuration that names it.
\<close>

definition Build_ok :: "zap_Config \<Rightarrow> string option" where
  "Build_ok cfg = None"

definition Build_missing_dir :: "zap_Config \<Rightarrow> string option" where
  "Build_missing_dir cfg =
     (if ''/nonexistent/app.log'' \<in> set (OutputPaths cfg)
      then Some ''open /nonexistent/app.log: no such file or directory''
      else None)"

section \<open>The asynchronous writer\<close>

text \<open>
  \<open>bufwriter\<close> is \<open>chan []byte\<close> (line 138). \<open>NewBufwriter\<close> (lines 155-170) makes the
  channel, builds a \<open>lumberjack.Logger\<close> and starts one goroutine that ranges over the
  channel. \<open>Write\<close> (lines 140-143) sends on the channel and returns. Both sides run
  concurrently, so the model is a transition system: a state holds the channel, the
  goroutines started on it and the trace of what has been observed, and a schedule (a list
  of actions) picks which thread moves next.

  The channel follows the Go runtime: a buffer of at most \<open>qcap\<close> elements, the queue
  \<open>sendq\<close> of senders parked because the buffer was full, and the queue \<open>recvq\<close> of
  receivers parked because it was empty. A slice is modelled by its bytes.
\<close>

type_synonym bytes = "8 word list"

text \<open>
  Where a worker goroutine stands (lines 164-167): at the receive of \<open>range c\<close>, parked
  inside that receive, before \<open>os.Stdout.Write(p)\<close>, or before \<open>l.Write(p)\<close>.
\<close>

datatype pc = Ready | Parked | AtStdout bytes | AtFile bytes

record worker =
  at :: pc
  sink :: lumberjack_Logger

text \<open>
  The trace. \<open>Called p\<close>: a caller entered \<open>Write(p)\<close>; \<open>Returned p r\<close>: that call returned
  \<open>r\<close>; \<open>Dequeued p\<close>: a worker received \<open>p\<close> from the channel; \<open>StdoutWrite p e\<close> and
  \<open>FileWrite l p e\<close>: the worker wrote \<open>p\<close> to standard output, or to the sink \<open>l\<close>, and the
  write returned the error \<open>e\<close> (\<open>None\<close> for nil).
\<close>

datatype event =
    Called bytes
  | Returned bytes "int \<times> string option"
  | Dequeued bytes
  | StdoutWrite bytes "string option"
  | FileWrite lumberjack_Logger bytes "string option"

record sys =
  qcap :: nat
  buf :: "bytes list"
  sendq :: "bytes list"
  recvq :: "nat list"
  workers :: "worker list"
  trace :: "event list"

text \<open>
  \<open>NewBufwriter lim n logFile\<close>. \<open>make(bufwriter, n)\<close> panics when \<open>n\<close> is negative or
  larger than the runtime can allocate; \<open>lim\<close> is that platform bound on the number of
  elements. \<open>Compress\<close> and \<open>LocalTime\<close> are not set in the literal, so they are false.
  The \<open>go\<close> statement adds the worker, which starts at the receive.
\<close>

definition NewBufwriter :: "int \<Rightarrow> int \<Rightarrow> string \<Rightarrow> panic + sys" where
  "NewBufwriter lim n logFile =
     (if n < 0 \<or> lim < n then Inl MakechanSizeOutOfRange
      else
        (let logwriter = \<lparr>Filename = logFile, MaxSize = 500, MaxAge = 7, MaxBackups = 10,
                          LocalTime = False, Compress = False\<rparr>
         in Inr \<lparr>qcap = nat n, buf = [], sendq = [], recvq = [],
                 workers = [\<lparr>at = Ready, sink = logwriter\<rparr>], trace = []\<rparr>))"

text \<open>
  Worker \<open>i\<close> moves to \<open>c\<close>. An index past the end changes nothing; \<open>recvq\<close> only ever
  holds indices of workers, and \<open>worker_step\<close> checks the index before it moves one.
\<close>

definition goto :: "nat \<Rightarrow> pc \<Rightarrow> worker list \<Rightarrow> worker list" where
  "goto i c ws = ws[i := (ws ! i)\<lparr>at := c\<rparr>]"

text \<open>Line 142: \<open>return len(p), nil\<close>.\<close>

definition Write_result :: "bytes \<Rightarrow> int \<times> string option" where
  "Write_result p = (int (length p), None)"

text \<open>
  Line 141, \<open>bw <- p\<close>, as the runtime's \<open>chansend\<close>: a parked receiver gets the element
  directly; otherwise it goes to the back of the buffer if there is room; otherwise the
  sender parks. The flag tells whether the send completed.
\<close>

definition chansend :: "bytes \<Rightarrow> sys \<Rightarrow> sys \<times> bool" where
  "chansend p s =
     (case recvq s of
        i # rest \<Rightarrow>
          (s\<lparr>recvq := rest, workers := goto i (AtStdout p) (workers s),
             trace := trace s @ [Dequeued p]\<rparr>, True)
      | [] \<Rightarrow>
          if length (buf s) < qcap s then (s\<lparr>buf := buf s @ [p]\<rparr>, True)
          else (s\<lparr>sendq := sendq s @ [p]\<rparr>, False))"

definition Write :: "bytes \<Rightarrow> sys \<Rightarrow> sys" where
  "Write p s =
     (case chansend p (s\<lparr>trace := trace s @ [Called p]\<rparr>) of
        (s', sent) \<Rightarrow>
          if sent then s'\<lparr>trace := trace s' @ [Returned p (Write_result p)]\<rparr> else s')"

text \<open>
  The receive of \<open>for p := range c\<close> by worker \<open>i\<close>, as the runtime's \<open>chanrecv\<close>: with a
  parked sender, the worker takes the head of the buffer and the sender's element goes to
  the back (or, with no buffer, the worker takes the sender's element), and the sender
  resumes at line 142; otherwise the worker takes the head of the buffer; otherwise it
  parks.
\<close>

definition chanrecv :: "nat \<Rightarrow> sys \<Rightarrow> sys" where
  "chanrecv i s =
     (case sendq s of
        q # qs \<Rightarrow>
          (case buf s of
             [] \<Rightarrow>
               s\<lparr>sendq := qs, workers := goto i (AtStdout q) (workers s),
                 trace := trace s @ [Dequeued q, Returned q (Write_result q)]\<rparr>
           | b # bs \<Rightarrow>
               s\<lparr>buf := bs @ [q], sendq := qs, workers := goto i (AtStdout b) (workers s),
                 trace := trace s @ [Dequeued b, Returned q (Write_result q)]\<rparr>)
      | [] \<Rightarrow>
          (case buf s of
             [] \<Rightarrow> s\<lparr>recvq := recvq s @ [i], workers := goto i Parked (workers s)\<rparr>
           | b # bs \<Rightarrow>
               s\<lparr>buf := bs, workers := goto i (AtStdout b) (workers s),
                 trace := trace s @ [Dequeued b]\<rparr>))"

text \<open>
  One step of worker \<open>i\<close> (lines 164-167). \<open>e\<close> is the error the write of this step
  returns, chosen by the environment; the source drops it, so the next state of the
  worker does not look at it. Each write is taken to return. The channel is never
  closed, so the loop has no exit.
\<close>

definition worker_step :: "nat \<Rightarrow> string option \<Rightarrow> sys \<Rightarrow> sys" where
  "worker_step i e s =
     (if length (workers s) \<le> i then s
      else
        (case at (workers s ! i) of
           Ready \<Rightarrow> chanrecv i s
         | Parked \<Rightarrow> s
         | AtStdout p \<Rightarrow>
             s\<lparr>workers := goto i (AtFile p) (workers s),
               trace := trace s @ [StdoutWrite p e]\<rparr>
         | AtFile p \<Rightarrow>
             s\<lparr>workers := goto i Ready (workers s),
               trace := trace s @ [FileWrite (sink (workers s ! i)) p e]\<rparr>))"

datatype action = CallWrite bytes | WorkerStep nat "string option"

fun step :: "action \<Rightarrow> sys \<Rightarrow> sys" where
  "step (CallWrite p) s = Write p s"
| "step (WorkerStep i e) s = worker_step i e s"

definition run :: "action list \<Rightarrow> sys \<Rightarrow> sys" where
  "run acts s = fold step acts s"

text \<open>Projections of a trace, each in trace order.\<close>

fun called :: "event list \<Rightarrow> bytes list" where
  "called [] = []"
| "called (Called p # t) = p # called t"
| "called (_ # t) = called t"

fun returned :: "event list \<Rightarrow> (bytes \<times> (int \<times> string option)) list" where
  "returned [] = []"
| "returned (Returned p r # t) = (p, r) # returned t"
| "returned (_ # t) = returned t"

fun dequeued :: "event list \<Rightarrow> bytes list" where
  "dequeued [] = []"
| "dequeued (Dequeued p # t) = p # dequeued t"
| "dequeued (_ # t) = dequeued t"

fun to_stdout :: "event list \<Rightarrow> bytes list" where
  "to_stdout [] = []"
| "to_stdout (StdoutWrite p e # t) = p # to_stdout t"
| "to_stdout (_ # t) = to_stdout t"

fun to_file :: "event list \<Rightarrow> bytes list" where
  "to_file [] = []"
| "to_file (FileWrite l p e # t) = p # to_file t"
| "to_file (_ # t) = to_file t"

text \<open>The writes of a trace alone: \<open>Inl p\<close> to standard output, \<open>Inr p\<close> to the file.\<close>

fun writes :: "event list \<Rightarrow> (bytes + bytes) list" where
  "writes [] = []"
| "writes (StdoutWrite p e # t) = Inl p # writes t"
| "writes (FileWrite l p e # t) = Inr p # writes t"
| "writes (_ # t) = writes t"

text \<open>The sinks the file writes of a trace went to.\<close>

fun sinks_used :: "event list \<Rightarrow> lumberjack_Logger list" where
  "sinks_used [] = []"
| "sinks_used (FileWrite l p e # t) = l # sinks_used t"
| "sinks_used (_ # t) = sinks_used t"

text \<open>A schedule and a trace with every write succeeding.\<close>

fun no_fail :: "action \<Rightarrow> action" where
  "no_fail (CallWrite p) = CallWrite p"
| "no_fail (WorkerStep i e) = WorkerStep i None"

fun no_fail_ev :: "event \<Rightarrow> event" where
  "no_fail_ev (StdoutWrite p e) = StdoutWrite p None"
| "no_fail_ev (FileWrite l p e) = FileWrite l p None"
| "no_fail_ev ev = ev"

text \<open>A state with the errors recorded in its trace erased.\<close>

definition calm :: "sys \<Rightarrow> sys" where
  "calm s = s\<lparr>trace := map no_fail_ev (trace s)\<rparr>"

text \<open>
  What the single worker of a writer holds: the buffer it has received and not yet
  written (\<open>holding\<close>), or written to standard output only (\<open>half_written\<close>).
\<close>

definition holding :: "sys \<Rightarrow> bytes list" where
  "holding s = (case at (workers s ! 0) of AtStdout p \<Rightarrow> [p] | _ \<Rightarrow> [])"

definition half_written :: "sys \<Rightarrow> bytes list" where
  "half_written s = (case at (workers s ! 0) of AtFile p \<Rightarrow> [p] | _ \<Rightarrow> [])"

text \<open>
  The states a writer made by \<open>NewBufwriter\<close> can be in: one worker; the buffer within
  its capacity; senders parked only while the buffer is full; the worker in \<open>recvq\<close>
  exactly while it is parked, and then nothing is pending.
\<close>

definition shape :: "sys \<Rightarrow> bool" where
  "shape s \<longleftrightarrow>
     length (workers s) = 1 \<and> length (buf s) \<le> qcap s \<and>
     (sendq s = [] \<or> length (buf s) = qcap s) \<and>
     (if at (workers s ! 0) = Parked then recvq s = [0] \<and> buf s = [] \<and> sendq s = []
      else recvq s = [])"

text \<open>
  The bookkeeping that ties the trace to the state: every buffer passed to \<open>Write\<close> has
  been dequeued, or is in the buffer, or belongs to a parked sender, in call order; the
  calls that returned are the calls not parked, each with the result of line 142; a
  dequeued buffer has been written to standard output or is held; a buffer written to
  standard output has been written to the file or is the one half written; and the
  writes alternate, standard output then file, buffer by buffer.
\<close>

definition pairs :: "bytes list \<Rightarrow> (bytes + bytes) list" where
  "pairs ps = concat (map (\<lambda>p. [Inl p, Inr p]) ps)"

definition accounted :: "sys \<Rightarrow> bool" where
  "accounted s \<longleftrightarrow>
     called (trace s) = dequeued (trace s) @ buf s @ sendq s \<and>
     called (trace s) = map fst (returned (trace s)) @ sendq s \<and>
     returned (trace s) = map (\<lambda>p. (p, Write_result p)) (map fst (returned (trace s))) \<and>
     dequeued (trace s) = to_stdout (trace s) @ holding s \<and>
     to_stdout (trace s) = to_file (trace s) @ half_written s \<and>
     writes (trace s) = pairs (to_file (trace s)) @ map Inl (half_written s)"

text \<open>
  The number of steps the worker still has to take until every pending buffer is written
  to both destinations: three per buffer waiting in the channel, two or one for the
  buffer it holds.
\<close>

definition steps_left :: "sys \<Rightarrow> nat" where
  "steps_left s =
     3 * (length (buf s) + length (sendq s)) +
     (case at (workers s ! 0) of Ready \<Rightarrow> 0 | Parked \<Rightarrow> 0 | AtStdout p \<Rightarrow> 2 | AtFile p \<Rightarrow> 1)"

text \<open>The writer \<open>NewBufwriter\<close> returns for capacity 1 and the file \<open>app.log\<close>.\<close>

definition example_writer :: sys where
  "example_writer =
     \<lparr>qcap = 1, buf = [], sendq = [], recvq = [],
      workers = [\<lparr>at = Ready,
                  sink = \<lparr>Filename = ''app.log'', MaxSize = 500, MaxAge = 7, MaxBackups = 10,
                          LocalTime = False, Compress = False\<rparr>\<rparr>],
      trace = []\<rparr>"

section \<open>Level resolution\<close>

text \<open>
  C5. \<open>GetLevel\<close> maps each name of the enumeration to its level, except that
  \<open>"DPANIC"\<close> resolves to the level of \<open>"PANIC"\<close>; every other string resolves to
  \<open>INFO\<close>.
\<close>

theorem GetLevel_enumeration:
  "GetLevel ''INFO'' = INFO \<and> GetLevel ''WARN'' = WARN \<and> GetLevel ''ERROR'' = ERROR \<and>
   GetLevel ''DPANIC'' = PANIC \<and> GetLevel ''PANIC'' = PANIC \<and>
   GetLevel ''DPANIC'' = GetLevel ''PANIC'' \<and> GetLevel ''DPANIC'' \<noteq> DPANIC \<and>
   GetLevel ''FATAL'' = FATAL \<and> GetLevel ''DEBUG'' = DEBUG \<and>
   (l \<notin> {''INFO'', ''WARN'', ''ERROR'', ''DPANIC'', ''PANIC'', ''FATAL'', ''DEBUG''}
      \<longrightarrow> GetLevel l = INFO)"
  by (simp add: GetLevel_def PANIC_def DPANIC_def)

theorem GetLevel_enumeration_witness:
  "GetLevel ''TRACE'' = INFO \<and> GetLevel ''info'' = INFO \<and> GetLevel '''' = INFO"
  using GetLevel_enumeration [of "''TRACE''"] GetLevel_enumeration [of "''info''"]
    GetLevel_enumeration [of "''''"]
  by simp

text \<open>The seven constants are seven different levels, so \<open>"DPANIC"\<close> does lose its own.\<close>

lemma levels_distinct:
  "distinct (map level_code [DEBUG, INFO, WARN, ERROR, DPANIC, PANIC, FATAL])"
  by (simp add: INFO_def WARN_def ERROR_def DPANIC_def PANIC_def FATAL_def DEBUG_def)

section \<open>The error-level method\<close>


text \<open>
  C4. On the empty argument list \<open>Error\<close> does not reach either branch: the index
  expression panics. \<open>Info\<close>, on the same input, logs.
\<close>

theorem Error_empty_args_panics:
  "Error s [] = ([], Some (IndexOutOfRange (-1) 0)) \<and>
   Info s [] = ([SugarLog (logger s) InfoLevel []], None)"
  by (simp add: Error_def Info_def)

text \<open>
  On a non-empty list whose last argument is not an error value, the field is
  \<open>"unknown"\<close>, the arguments are passed on unchanged and nothing is printed.
\<close>

lemma Error_other_last:
  "args \<noteq> [] \<Longrightarrow> \<forall>m. last args \<noteq> VError m \<Longrightarrow>
   Error s args =
     ([SugarLog ((logger s)\<lparr>ctx_fields := ctx_fields (logger s) @
                   [\<lparr>Key = ''response_message'', Type = 15, String = ''unknown''\<rparr>]\<rparr>)
         ErrorLevel args], None)"
  by (cases "last args") (simp_all add: Error_def Fields_def response_field_def)

section \<open>Building the logger\<close>

lemma NewService_Logger:
  "NewService Build (VLogger conf) =
     (service_sink conf @
        (if Build (service_cfg conf) = None
         then [SugarLog (Sugar (Built (service_cfg conf))) ErrorLevel
                 [VString ''Was unable to create logger file!'']]
         else [SugarLog (Sugar Example) ErrorLevel [VString ''Was unable to create logger file!''],
               SugarLog (Sugar Example) ErrorLevel
                 [VString ''Was unable to create desired logger, running on simple logger!'']]),
      Inr \<lparr>logger = AddCallerSkip 1
                       (Sugar (if Build (service_cfg conf) = None then Built (service_cfg conf)
                               else Example)),
           log_of = (if Build (service_cfg conf) = None then Some (Built (service_cfg conf))
                     else None)\<rparr>)"
  by (simp add: NewService_def getConfigFromInterface_def Let_def)

lemma emitted_append: "emitted (xs @ ys) = emitted xs @ emitted ys"
  by (induction xs rule: emitted.induct) simp_all

lemma emitted_service_sink: "emitted (service_sink conf) = []"
  by (simp add: service_sink_def)

lemma OutputPaths_service_cfg:
  "OutputPaths (service_cfg conf) =
     ''stdout'' # (if TrimSpace (LogFileName conf) \<noteq> [] then [LogFileName conf] else [])"
  by (simp add: service_cfg_def Let_def)

lemma TrimSpace_empty: "TrimSpace [] = []"
  by code_simp

lemma TrimSpace_app_log: "TrimSpace ''app.log'' = ''app.log''"
  by code_simp

lemma TrimSpace_nonexistent: "TrimSpace ''/nonexistent/app.log'' = ''/nonexistent/app.log''"
  by code_simp

lemma TrimSpace_blank: "TrimSpace [CHR 0x20, CHR 0x09, CHR 0xC2, CHR 0xA0, CHR 0x0A] = []"
  by code_simp

lemma service_sink_empty_name: "LogFileName conf = [] \<Longrightarrow> service_sink conf = []"
  by (simp add: service_sink_def TrimSpace_empty)

text \<open>
  C9. \<open>NewService\<close> panics at the type assertion, with no effect before it, for every
  argument whose dynamic type is not \<open>config.Logger\<close>: a \<open>*config.Logger\<close>, a
  \<open>config.Config\<close>, nil, or anything else. For a \<open>config.Logger\<close> value it does not
  panic.
\<close>

theorem NewService_type_assertion:
  "((\<forall>conf. config \<noteq> VLogger conf) \<longrightarrow>
      NewService Build config = ([], Inl TypeAssertionFailed)) \<and>
   (\<forall>p. snd (NewService Build (VLogger conf)) \<noteq> Inl p) \<and>
   NewService Build (VLoggerPtr ptr) = ([], Inl TypeAssertionFailed) \<and>
   NewService Build (VConfig c) = ([], Inl TypeAssertionFailed) \<and>
   NewService Build VNil = ([], Inl TypeAssertionFailed)"
proof -
  have "(\<forall>conf. config \<noteq> VLogger conf) \<longrightarrow>
      NewService Build config = ([], Inl TypeAssertionFailed)"
    by (cases config) (simp_all add: NewService_def getConfigFromInterface_def)
  moreover have "\<forall>p. snd (NewService Build (VLogger conf)) \<noteq> Inl p"
    by (simp add: NewService_Logger)
  moreover have "NewService Build (VLoggerPtr ptr) = ([], Inl TypeAssertionFailed)"
    and "NewService Build (VConfig c) = ([], Inl TypeAssertionFailed)"
    and "NewService Build VNil = ([], Inl TypeAssertionFailed)"
    by (simp_all add: NewService_def getConfigFromInterface_def)
  ultimately show ?thesis by blast
qed

theorem NewService_type_assertion_witness:
  "NewService Build_ok (VOther ''map[string]string'') = ([], Inl TypeAssertionFailed) \<and>
   NewService Build_ok (VString ''app.log'') = ([], Inl TypeAssertionFailed)"
  using NewService_type_assertion [of "VOther ''map[string]string''" Build_ok]
    NewService_type_assertion [of "VString ''app.log''" Build_ok]
  by simp

text \<open>
  C8, as amended. The \<open>zap.Config\<close> that \<open>NewService\<close> assembles always has standard
  output as an output path, and the configured file as a second one exactly when the file
  name is not empty after trimming. The logger \<open>NewService\<close> returns writes to these paths
  when \<open>cfg.Build()\<close> succeeds; when it fails, the logger is the example logger, which
  writes to standard output only. With an empty file name no file path is configured and
  no sink is registered.
\<close>

theorem NewService_output_paths:
  "(case snd (NewService Build (VLogger conf)) of
      Inl p \<Rightarrow> False
    | Inr sl \<Rightarrow>
        ''stdout'' \<in> set (output_paths (base (logger sl))) \<and>
        output_paths (base (logger sl)) =
          (if Build (service_cfg conf) = None \<and> TrimSpace (LogFileName conf) \<noteq> []
           then [''stdout'', LogFileName conf] else [''stdout''])) \<and>
   OutputPaths (service_cfg conf) =
     (if TrimSpace (LogFileName conf) \<noteq> [] then [''stdout'', LogFileName conf]
      else [''stdout'']) \<and>
   (LogFileName conf = [] \<longrightarrow>
      OutputPaths (service_cfg conf) = [''stdout''] \<and> service_sink conf = [])"
  by (simp add: NewService_Logger OutputPaths_service_cfg AddCallerSkip_def Sugar_def
      TrimSpace_empty service_sink_empty_name)

theorem NewService_output_paths_witness:
  "snd (NewService Build_ok (VLogger
      \<lparr>LogFileName = '''', LoggingLevel = ''INFO'', LogFileSizeCappingInMBs = 100,
       MaxLogBackupsCount = 3, MaxOldLogRetentionInDays = 28,
       OldLogsCompressionRequired = True\<rparr>)) =
     Inr \<lparr>logger = \<lparr>base = Built \<lparr>Encoding = ''json'', Level_of = InfoLevel,
                        OutputPaths = [''stdout''], ErrorOutputPaths = [''stderr''],
                        EncoderConfig_of = encoderConfig\<rparr>,
                     callerSkip = 1, ctx_fields = []\<rparr>,
          log_of = Some (Built \<lparr>Encoding = ''json'', Level_of = InfoLevel,
                        OutputPaths = [''stdout''], ErrorOutputPaths = [''stderr''],
                        EncoderConfig_of = encoderConfig\<rparr>)\<rparr> \<and>
   OutputPaths (service_cfg
      \<lparr>LogFileName = ''app.log'', LoggingLevel = ''INFO'', LogFileSizeCappingInMBs = 100,
       MaxLogBackupsCount = 3, MaxOldLogRetentionInDays = 28,
       OldLogsCompressionRequired = True\<rparr>) = [''stdout'', ''app.log''] \<and>
   OutputPaths (service_cfg
      \<lparr>LogFileName = [CHR 0x20, CHR 0x09, CHR 0xC2, CHR 0xA0, CHR 0x0A],
       LoggingLevel = ''INFO'', LogFileSizeCappingInMBs = 100,
       MaxLogBackupsCount = 3, MaxOldLogRetentionInDays = 28,
       OldLogsCompressionRequired = True\<rparr>) = [''stdout'']"
  using NewService_output_paths [of Build_ok
      "\<lparr>LogFileName = '''', LoggingLevel = ''INFO'', LogFileSizeCappingInMBs = 100,
       MaxLogBackupsCount = 3, MaxOldLogRetentionInDays = 28,
       OldLogsCompressionRequired = True\<rparr>"]
    NewService_output_paths [of Build_ok
      "\<lparr>LogFileName = ''app.log'', LoggingLevel = ''INFO'', LogFileSizeCappingInMBs = 100,
       MaxLogBackupsCount = 3, MaxOldLogRetentionInDays = 28,
       OldLogsCompressionRequired = True\<rparr>"]
    NewService_output_paths [of Build_ok
      "\<lparr>LogFileName = [CHR 0x20, CHR 0x09, CHR 0xC2, CHR 0xA0, CHR 0x0A],
       LoggingLevel = ''INFO'', LogFileSizeCappingInMBs = 100,
       MaxLogBackupsCount = 3, MaxOldLogRetentionInDays = 28,
       OldLogsCompressionRequired = True\<rparr>"]
  by (simp add: NewService_Logger TrimSpace_app_log TrimSpace_empty TrimSpace_blank
      Build_ok_def service_cfg_def GetLevel_def INFO_def AddCallerSkip_def Sugar_def)

lemma Build_missing_dir_fails:
  "LogFileName conf = ''/nonexistent/app.log'' \<Longrightarrow>
   Build_missing_dir (service_cfg conf) =
     Some ''open /nonexistent/app.log: no such file or directory''"
  by (simp add: Build_missing_dir_def OutputPaths_service_cfg TrimSpace_nonexistent)

text \<open>
  In the environment where \<open>/nonexistent/app.log\<close> cannot be opened, a configuration
  naming that file gets the example logger: the trimmed name is not empty, and the logger
  writes to standard output only.
\<close>

theorem NewService_output_paths_counterexample:
  "TrimSpace ''/nonexistent/app.log'' \<noteq> [] \<and>
   snd (NewService Build_missing_dir (VLogger
      \<lparr>LogFileName = ''/nonexistent/app.log'', LoggingLevel = ''INFO'',
       LogFileSizeCappingInMBs = 100, MaxLogBackupsCount = 3, MaxOldLogRetentionInDays = 28,
       OldLogsCompressionRequired = True\<rparr>)) =
     Inr \<lparr>logger = \<lparr>base = Example, callerSkip = 1, ctx_fields = []\<rparr>, log_of = None\<rparr> \<and>
   output_paths Example = [''stdout'']"
  by (simp add: NewService_Logger TrimSpace_nonexistent Build_missing_dir_fails
      AddCallerSkip_def Sugar_def)

lemma written_append: "written (xs @ ys) = written xs @ written ys"
  by (induction xs rule: written.induct) simp_all

lemma written_service_sink: "written (service_sink conf) = []"
  by (simp add: service_sink_def)

lemma Level_of_service_cfg: "Level_of (service_cfg conf) = GetLevel (LoggingLevel conf)"
  by (simp add: service_cfg_def Let_def)

lemma Enabled_GetLevel:
  "Enabled (GetLevel l) ErrorLevel \<longleftrightarrow> l \<notin> {''DPANIC'', ''PANIC'', ''FATAL''}"
  by (simp add: Enabled_def GetLevel_def INFO_def WARN_def ERROR_def PANIC_def FATAL_def
      DEBUG_def)

text \<open>
  C10, as amended. Every call of \<open>NewService\<close> with a \<open>config.Logger\<close> value makes the
  error-level call with the message \<open>Was unable to create logger file!\<close>, also when
  \<open>cfg.Build()\<close> succeeded: the success branch makes it unconditionally. Only when the
  build failed does a second error-level call follow, and only then is the returned
  logger the example logger. zap writes a record for the first call exactly when the
  build failed (the example logger writes from the debug level up) or the configured
  level resolves to error or below, that is, when the level string is none of \<open>DPANIC\<close>,
  \<open>PANIC\<close> and \<open>FATAL\<close>; with one of these and a successful build the call is made and no
  record is written. The second call, made on the example logger, is always written.
\<close>

theorem NewService_startup_records:
  "emitted (fst (NewService Build (VLogger conf))) =
     (if Build (service_cfg conf) = None
      then [(ErrorLevel, [VString ''Was unable to create logger file!''])]
      else [(ErrorLevel, [VString ''Was unable to create logger file!'']),
            (ErrorLevel,
             [VString ''Was unable to create desired logger, running on simple logger!''])]) \<and>
   written (fst (NewService Build (VLogger conf))) =
     (if Build (service_cfg conf) = None
      then (if LoggingLevel conf \<in> {''DPANIC'', ''PANIC'', ''FATAL''} then []
            else [(ErrorLevel, [VString ''Was unable to create logger file!''])])
      else [(ErrorLevel, [VString ''Was unable to create logger file!'']),
            (ErrorLevel,
             [VString ''Was unable to create desired logger, running on simple logger!''])]) \<and>
   (case snd (NewService Build (VLogger conf)) of
      Inl p \<Rightarrow> False
    | Inr sl \<Rightarrow>
        base (logger sl) =
          (if Build (service_cfg conf) = None then Built (service_cfg conf) else Example) \<and>
        threshold (base (logger sl)) =
          (if Build (service_cfg conf) = None then GetLevel (LoggingLevel conf)
           else DebugLevel))"
proof -
  have e: "emitted (fst (NewService Build (VLogger conf))) =
     (if Build (service_cfg conf) = None
      then [(ErrorLevel, [VString ''Was unable to create logger file!''])]
      else [(ErrorLevel, [VString ''Was unable to create logger file!'']),
            (ErrorLevel,
             [VString ''Was unable to create desired logger, running on simple logger!''])])"
    by (simp add: NewService_Logger emitted_append emitted_service_sink)
  have w: "written (fst (NewService Build (VLogger conf))) =
     (if Build (service_cfg conf) = None
      then (if LoggingLevel conf \<in> {''DPANIC'', ''PANIC'', ''FATAL''} then []
            else [(ErrorLevel, [VString ''Was unable to create logger file!''])])
      else [(ErrorLevel, [VString ''Was unable to create logger file!'']),
            (ErrorLevel,
             [VString ''Was unable to create desired logger, running on simple logger!''])])"
  proof (cases "Build (service_cfg conf) = None")
    case True
    have "Enabled (GetLevel (LoggingLevel conf)) ErrorLevel \<longleftrightarrow>
        LoggingLevel conf \<notin> {''DPANIC'', ''PANIC'', ''FATAL''}"
      by (rule Enabled_GetLevel)
    with True show ?thesis
      by (simp add: NewService_Logger written_append written_service_sink Sugar_def
          Level_of_service_cfg)
  next
    case False
    then show ?thesis
      by (simp add: NewService_Logger written_append written_service_sink Sugar_def
          Enabled_def)
  qed
  have b: "case snd (NewService Build (VLogger conf)) of
      Inl p \<Rightarrow> False
    | Inr sl \<Rightarrow>
        base (logger sl) =
          (if Build (service_cfg conf) = None then Built (service_cfg conf) else Example) \<and>
        threshold (base (logger sl)) =
          (if Build (service_cfg conf) = None then GetLevel (LoggingLevel conf)
           else DebugLevel)"
    by (simp add: NewService_Logger AddCallerSkip_def Sugar_def Level_of_service_cfg)
  from e w b show ?thesis by blast
qed

theorem NewService_startup_records_witness:
  "written (fst (NewService Build_ok (VLogger
      \<lparr>LogFileName = ''app.log'', LoggingLevel = ''DEBUG'', LogFileSizeCappingInMBs = 100,
       MaxLogBackupsCount = 3, MaxOldLogRetentionInDays = 28,
       OldLogsCompressionRequired = True\<rparr>))) =
     [(ErrorLevel, [VString ''Was unable to create logger file!''])] \<and>
   emitted (fst (NewService Build_ok (VLogger
      \<lparr>LogFileName = ''app.log'', LoggingLevel = ''FATAL'', LogFileSizeCappingInMBs = 100,
       MaxLogBackupsCount = 3, MaxOldLogRetentionInDays = 28,
       OldLogsCompressionRequired = True\<rparr>))) =
     [(ErrorLevel, [VString ''Was unable to create logger file!''])] \<and>
   written (fst (NewService Build_missing_dir (VLogger
      \<lparr>LogFileName = ''/nonexistent/app.log'', LoggingLevel = ''FATAL'',
       LogFileSizeCappingInMBs = 100, MaxLogBackupsCount = 3, MaxOldLogRetentionInDays = 28,
       OldLogsCompressionRequired = True\<rparr>))) =
     [(ErrorLevel, [VString ''Was unable to create logger file!'']),
      (ErrorLevel, [VString ''Was unable to create desired logger, running on simple logger!''])]"
  using NewService_startup_records [of Build_ok
      "\<lparr>LogFileName = ''app.log'', LoggingLevel = ''DEBUG'', LogFileSizeCappingInMBs = 100,
       MaxLogBackupsCount = 3, MaxOldLogRetentionInDays = 28,
       OldLogsCompressionRequired = True\<rparr>"]
    NewService_startup_records [of Build_ok
      "\<lparr>LogFileName = ''app.log'', LoggingLevel = ''FATAL'', LogFileSizeCappingInMBs = 100,
       MaxLogBackupsCount = 3, MaxOldLogRetentionInDays = 28,
       OldLogsCompressionRequired = True\<rparr>"]
    NewService_startup_records [of Build_missing_dir
      "\<lparr>LogFileName = ''/nonexistent/app.log'', LoggingLevel = ''FATAL'',
       LogFileSizeCappingInMBs = 100, MaxLogBackupsCount = 3, MaxOldLogRetentionInDays = 28,
       OldLogsCompressionRequired = True\<rparr>"]
  by (simp add: Build_ok_def Build_missing_dir_fails)

text \<open>
  With the level \<open>FATAL\<close> and a build that succeeds, \<open>NewService\<close> returns the built
  logger, whose threshold is above the error level, and zap writes no record. A call with
  the nil interface panics at the type assertion: no call is made and no record written.
\<close>

theorem NewService_startup_records_counterexample:
  "snd (NewService Build_ok (VLogger
      \<lparr>LogFileName = '''', LoggingLevel = ''FATAL'', LogFileSizeCappingInMBs = 100,
       MaxLogBackupsCount = 3, MaxOldLogRetentionInDays = 28,
       OldLogsCompressionRequired = True\<rparr>)) =
     Inr \<lparr>logger = \<lparr>base = Built \<lparr>Encoding = ''json'', Level_of = FatalLevel,
                        OutputPaths = [''stdout''], ErrorOutputPaths = [''stderr''],
                        EncoderConfig_of = encoderConfig\<rparr>,
                     callerSkip = 1, ctx_fields = []\<rparr>,
          log_of = Some (Built \<lparr>Encoding = ''json'', Level_of = FatalLevel,
                        OutputPaths = [''stdout''], ErrorOutputPaths = [''stderr''],
                        EncoderConfig_of = encoderConfig\<rparr>)\<rparr> \<and>
   written (fst (NewService Build_ok (VLogger
      \<lparr>LogFileName = '''', LoggingLevel = ''FATAL'', LogFileSizeCappingInMBs = 100,
       MaxLogBackupsCount = 3, MaxOldLogRetentionInDays = 28,
       OldLogsCompressionRequired = True\<rparr>))) = [] \<and>
   NewService Build_ok VNil = ([], Inl TypeAssertionFailed) \<and>
   written (fst (NewService Build_ok VNil)) = []"
  by (simp add: NewService_def getConfigFromInterface_def service_sink_def service_cfg_def
      Let_def TrimSpace_empty Build_ok_def GetLevel_def FATAL_def Sugar_def AddCallerSkip_def
      Enabled_def)

section \<open>Properties of the asynchronous writer: invariants\<close>

lemma called_append: "called (xs @ ys) = called xs @ called ys"
  by (induction xs rule: called.induct) simp_all

lemma returned_append: "returned (xs @ ys) = returned xs @ returned ys"
  by (induction xs rule: returned.induct) simp_all

lemma dequeued_append: "dequeued (xs @ ys) = dequeued xs @ dequeued ys"
  by (induction xs rule: dequeued.induct) simp_all

lemma to_stdout_append: "to_stdout (xs @ ys) = to_stdout xs @ to_stdout ys"
  by (induction xs rule: to_stdout.induct) simp_all

lemma to_file_append: "to_file (xs @ ys) = to_file xs @ to_file ys"
  by (induction xs rule: to_file.induct) simp_all

lemma writes_append: "writes (xs @ ys) = writes xs @ writes ys"
  by (induction xs rule: writes.induct) simp_all

lemmas proj_append = called_append returned_append dequeued_append to_stdout_append
  to_file_append writes_append

lemma pairs_snoc: "pairs (ps @ [p]) = pairs ps @ [Inl p, Inr p]"
  by (simp add: pairs_def)

lemma shape_init: "NewBufwriter lim n f = Inr s \<Longrightarrow> shape s"
  by (auto simp: NewBufwriter_def shape_def Let_def split: if_splits)

lemma accounted_init: "NewBufwriter lim n f = Inr s \<Longrightarrow> accounted s"
  by (auto simp: NewBufwriter_def accounted_def holding_def half_written_def pairs_def Let_def split: if_splits)

lemma one_worker: "shape s \<Longrightarrow> \<exists>w. workers s = [w]"
  by (cases "workers s") (auto simp: shape_def)

lemma shape_Write: "shape s \<Longrightarrow> shape (Write p s)"
proof -
  assume a: "shape s"
  then obtain w where w: "workers s = [w]" using one_worker by blast
  show ?thesis
  proof (cases "at w = Parked")
    case True
    with a w show ?thesis
      by (simp add: shape_def Write_def chansend_def goto_def)
  next
    case False
    with a w show ?thesis
      by (auto simp: shape_def Write_def chansend_def goto_def)
  qed
qed

lemma shape_worker_step: "shape s \<Longrightarrow> shape (worker_step i e s)"
proof -
  assume a: "shape s"
  then obtain w where w: "workers s = [w]" using one_worker by blast
  show ?thesis
  proof (cases "i = 0")
    case False
    with w show ?thesis using a by (simp add: worker_step_def)
  next
    case True
    show ?thesis
    proof (cases "at w")
      case Ready
      with a w True show ?thesis
        by (auto simp: shape_def worker_step_def chanrecv_def goto_def split: list.splits)
    next
      case Parked
      with a w True show ?thesis by (simp add: worker_step_def)
    next
      case (AtStdout p)
      with a w True show ?thesis
        by (auto simp: shape_def worker_step_def goto_def)
    next
      case (AtFile p)
      with a w True show ?thesis
        by (auto simp: shape_def worker_step_def goto_def)
    qed
  qed
qed

lemma accounted_nf:
  "accounted s \<longleftrightarrow>
     to_stdout (trace s) = to_file (trace s) @ half_written s \<and>
     dequeued (trace s) = to_file (trace s) @ half_written s @ holding s \<and>
     called (trace s) = to_file (trace s) @ half_written s @ holding s @ buf s @ sendq s \<and>
     returned (trace s) =
       map (\<lambda>p. (p, Write_result p)) (to_file (trace s) @ half_written s @ holding s @ buf s) \<and>
     writes (trace s) = pairs (to_file (trace s)) @ map Inl (half_written s)"
  (is "?L \<longleftrightarrow> ?R")
proof
  assume l: ?L
  have c: "called (trace s) = dequeued (trace s) @ buf s @ sendq s"
    and r: "called (trace s) = map fst (returned (trace s)) @ sendq s"
    and rr: "returned (trace s) = map (\<lambda>p. (p, Write_result p)) (map fst (returned (trace s)))"
    and d: "dequeued (trace s) = to_stdout (trace s) @ holding s"
    and o: "to_stdout (trace s) = to_file (trace s) @ half_written s"
    and w: "writes (trace s) = pairs (to_file (trace s)) @ map Inl (half_written s)"
    using l unfolding accounted_def by blast+
  have "map fst (returned (trace s)) @ sendq s = (dequeued (trace s) @ buf s) @ sendq s"
    using c r by (simp only: append_assoc)
  then have m: "map fst (returned (trace s)) = dequeued (trace s) @ buf s"
    by (simp only: append_same_eq)
  have "returned (trace s) = map (\<lambda>p. (p, Write_result p)) (dequeued (trace s) @ buf s)"
    using rr by (simp only: m)
  then show ?R
    by (simp only: c d o w append_assoc simp_thms)
next
  assume r: ?R
  then have "map fst (returned (trace s)) = to_file (trace s) @ half_written s @ holding s @ buf s"
    by (simp add: comp_def)
  then show ?L
    unfolding accounted_def using r by (simp add: comp_def)
qed

lemma accounted_Write: "shape s \<Longrightarrow> accounted s \<Longrightarrow> accounted (Write p s)"
proof -
  assume a: "shape s" and b: "accounted s"
  then obtain w where w: "workers s = [w]" using one_worker by blast
  show ?thesis
  proof (cases "at w = Parked")
    case True
    with a b w show ?thesis
      by (simp add: shape_def accounted_nf Write_def chansend_def goto_def proj_append
          holding_def half_written_def)
  next
    case False
    with a w have r: "recvq s = []" by (simp add: shape_def)
    show ?thesis
    proof (cases "length (buf s) < qcap s")
      case True
      with a have "sendq s = []" by (auto simp: shape_def)
      with True r b w show ?thesis
        by (simp add: accounted_nf Write_def chansend_def proj_append
            holding_def half_written_def)
    next
      case False
      with r b w show ?thesis
        by (simp add: accounted_nf Write_def chansend_def proj_append
            holding_def half_written_def)
    qed
  qed
qed

lemma accounted_worker_step:
  "shape s \<Longrightarrow> accounted s \<Longrightarrow> accounted (worker_step i e s)"
proof -
  assume a: "shape s" and b: "accounted s"
  then obtain w where w: "workers s = [w]" using one_worker by blast
  show ?thesis
  proof (cases "i = 0")
    case False
    with w show ?thesis using b by (simp add: worker_step_def)
  next
    case True
    show ?thesis
    proof (cases "at w")
      case Ready
      show ?thesis
      proof (cases "sendq s")
        case Nil
        with a b w True Ready show ?thesis
          by (cases "buf s")
            (simp_all add: accounted_nf worker_step_def chanrecv_def goto_def proj_append
              holding_def half_written_def)
      next
        case (Cons q qs)
        with a b w True Ready show ?thesis
          by (cases "buf s")
            (simp_all add: accounted_nf worker_step_def chanrecv_def goto_def proj_append
              holding_def half_written_def)
      qed
    next
      case Parked
      with b w True show ?thesis by (simp add: worker_step_def)
    next
      case (AtStdout p)
      with b w True show ?thesis
        by (simp add: accounted_nf worker_step_def goto_def proj_append
            holding_def half_written_def)
    next
      case (AtFile p)
      with b w True show ?thesis
        by (simp add: accounted_nf worker_step_def goto_def proj_append
            holding_def half_written_def pairs_snoc)
    qed
  qed
qed

lemma shape_step: "shape s \<Longrightarrow> shape (step a s)"
  by (cases a) (simp_all add: shape_Write shape_worker_step)

lemma accounted_step: "shape s \<Longrightarrow> accounted s \<Longrightarrow> accounted (step a s)"
  by (cases a) (simp_all add: accounted_Write accounted_worker_step)

lemma run_Nil: "run [] s = s"
  by (simp add: run_def)

lemma run_Cons: "run (a # acts) s = run acts (step a s)"
  by (simp add: run_def)

lemma run_append: "run (xs @ ys) s = run ys (run xs s)"
  by (simp add: run_def)

lemma shape_run: "shape s \<Longrightarrow> shape (run acts s)"
  by (induction acts arbitrary: s) (simp_all add: run_Nil run_Cons shape_step)

lemma accounted_run: "shape s \<Longrightarrow> accounted s \<Longrightarrow> accounted (run acts s)"
  by (induction acts arbitrary: s) (simp_all add: run_Nil run_Cons shape_step accounted_step)

lemma qcap_step: "qcap (step a s) = qcap s"
  by (cases a)
    (auto simp: Write_def chansend_def worker_step_def chanrecv_def
      split: list.splits pc.splits)

lemma qcap_run: "qcap (run acts s) = qcap s"
  by (induction acts arbitrary: s) (simp_all add: run_Nil run_Cons qcap_step)

lemma calm_step: "step (no_fail a) (calm s) = calm (step a s)"
  by (cases a)
    (auto simp: calm_def Write_def chansend_def worker_step_def chanrecv_def
      split: list.splits pc.splits)

lemma calm_run: "run (map no_fail acts) (calm s) = calm (run acts s)"
  by (induction acts arbitrary: s) (simp_all add: run_Nil run_Cons calm_step)

lemma returned_calm: "returned (map no_fail_ev t) = returned t"
  by (induction t rule: returned.induct) simp_all

lemma called_calm: "called (map no_fail_ev t) = called t"
  by (induction t rule: called.induct) simp_all

lemma dequeued_calm: "dequeued (map no_fail_ev t) = dequeued t"
  by (induction t rule: dequeued.induct) simp_all

lemma to_stdout_calm: "to_stdout (map no_fail_ev t) = to_stdout t"
  by (induction t rule: to_stdout.induct) simp_all

lemma to_file_calm: "to_file (map no_fail_ev t) = to_file t"
  by (induction t rule: to_file.induct) simp_all

lemma writes_calm: "writes (map no_fail_ev t) = writes t"
  by (induction t rule: writes.induct) simp_all

lemma called_worker_step: "called (trace (worker_step i e s)) = called (trace s)"
  by (auto simp: worker_step_def chanrecv_def proj_append split: list.splits pc.splits)

lemma called_workers_run:
  "called (trace (run (map (WorkerStep 0) es) s)) = called (trace s)"
  by (induction es arbitrary: s) (simp_all add: run_Nil run_Cons called_worker_step)

lemma steps_left_worker_step:
  "shape s \<Longrightarrow> steps_left (worker_step 0 e s) = steps_left s - 1"
proof -
  assume a: "shape s"
  then obtain w where w: "workers s = [w]" using one_worker by blast
  show ?thesis
  proof (cases "at w")
    case Ready
    with a w show ?thesis
      by (auto simp: steps_left_def worker_step_def chanrecv_def goto_def shape_def
          split: list.splits)
  next
    case Parked
    with a w show ?thesis
      by (simp add: steps_left_def worker_step_def shape_def)
  next
    case (AtStdout p)
    with w show ?thesis
      by (simp add: steps_left_def worker_step_def goto_def)
  next
    case (AtFile p)
    with w show ?thesis
      by (simp add: steps_left_def worker_step_def goto_def)
  qed
qed

lemma steps_left_run:
  "shape s \<Longrightarrow> steps_left (run (map (WorkerStep 0) es) s) = steps_left s - length es"
proof (induction es arbitrary: s)
  case Nil
  then show ?case by (simp add: run_Nil)
next
  case (Cons e es)
  have "shape (worker_step 0 e s)" using Cons.prems by (rule shape_worker_step)
  then have "steps_left (run (map (WorkerStep 0) es) (worker_step 0 e s)) =
      steps_left (worker_step 0 e s) - length es"
    by (rule Cons.IH)
  then show ?case
    using Cons.prems by (simp add: run_Cons steps_left_worker_step)
qed

lemma drained:
  "shape s \<Longrightarrow> steps_left s = 0 \<Longrightarrow>
   buf s = [] \<and> sendq s = [] \<and> holding s = [] \<and> half_written s = []"
  by (cases "at (workers s ! 0)") (auto simp: steps_left_def holding_def half_written_def)

lemma init_invariants:
  "NewBufwriter lim n f = Inr s0 \<Longrightarrow> shape (run acts s0) \<and> accounted (run acts s0)"
  by (simp add: shape_init accounted_init shape_run accounted_run)

lemma calm_init: "NewBufwriter lim n f = Inr s0 \<Longrightarrow> calm s0 = s0"
  by (auto simp: NewBufwriter_def calm_def Let_def split: if_splits)

lemma pairs_append: "pairs (xs @ ys) = pairs xs @ pairs ys"
  by (simp add: pairs_def)

lemma all_done:
  assumes "shape s" and "accounted s" and "steps_left s \<le> length es"
  defines "s' \<equiv> run (map (WorkerStep 0) es) s"
  shows "returned (trace s') = map (\<lambda>q. (q, Write_result q)) (called (trace s)) \<and>
         writes (trace s') = pairs (called (trace s)) \<and>
         to_stdout (trace s') = called (trace s) \<and>
         to_file (trace s') = called (trace s) \<and>
         buf s' = [] \<and> sendq s' = []"
proof -
  have sh: "shape s'" and ac: "accounted s'"
    using assms(1,2) by (simp_all add: s'_def shape_run accounted_run)
  have "steps_left s' = 0"
    using assms(1,3) by (simp add: s'_def steps_left_run)
  with sh have d: "buf s' = []" "sendq s' = []" "holding s' = []" "half_written s' = []"
    using drained by blast+
  have c: "called (trace s') = called (trace s)"
    by (simp add: s'_def called_workers_run)
  from ac d c show ?thesis
    by (simp add: accounted_nf)
qed

lemma called_Write: "called (trace (Write p s)) = called (trace s) @ [p]"
  by (auto simp: Write_def chansend_def proj_append split: list.splits)

lemma Write_at_once:
  "recvq s \<noteq> [] \<or> length (buf s) < qcap s \<Longrightarrow>
   returned (trace (Write p s)) = returned (trace s) @ [(p, Write_result p)]"
  by (auto simp: Write_def chansend_def proj_append split: list.splits)

lemma Write_parks:
  "recvq s = [] \<Longrightarrow> \<not> length (buf s) < qcap s \<Longrightarrow>
   Write p s = s\<lparr>sendq := sendq s @ [p], trace := trace s @ [Called p]\<rparr>"
  by (simp add: Write_def chansend_def)

lemma dequeued_grows: "\<exists>ds. dequeued (trace (step a s)) = dequeued (trace s) @ ds"
  by (cases a)
    (auto simp: Write_def chansend_def worker_step_def chanrecv_def proj_append
      split: list.splits pc.splits)

lemma dequeued_length_step: "length (dequeued (trace s)) \<le> length (dequeued (trace (step a s)))"
  using dequeued_grows [of a s] by auto

lemma dequeued_length_run: "length (dequeued (trace s)) \<le> length (dequeued (trace (run acts s)))"
proof (induction acts arbitrary: s)
  case Nil
  show ?case by (simp add: run_Nil)
next
  case (Cons a acts)
  have "length (dequeued (trace s)) \<le> length (dequeued (trace (step a s)))"
    by (rule dequeued_length_step)
  also have "\<dots> \<le> length (dequeued (trace (run acts (step a s))))"
    by (rule Cons.IH)
  finally show ?case by (simp add: run_Cons)
qed

lemma full_step:
  assumes "shape s" and "length (buf s) = qcap s"
    and "length (dequeued (trace (step a s))) = length (dequeued (trace s))"
  shows "returned (trace (step a s)) = returned (trace s) \<and>
         length (buf (step a s)) = qcap (step a s)"
proof -
  obtain w where w: "workers s = [w]" using assms(1) one_worker by blast
  show ?thesis
  proof (cases a)
    case (CallWrite p)
    with assms w show ?thesis
      by (auto simp: Write_def chansend_def proj_append shape_def split: list.splits)
  next
    case (WorkerStep i e)
    show ?thesis
    proof (cases "i = 0")
      case False
      with w WorkerStep assms show ?thesis by (simp add: worker_step_def)
    next
      case True
      with w WorkerStep assms show ?thesis
        by (cases "at w")
          (auto simp: worker_step_def chanrecv_def proj_append shape_def goto_def
            split: list.splits)
    qed
  qed
qed

lemma full_run:
  "shape s \<Longrightarrow> length (buf s) = qcap s \<Longrightarrow>
   length (dequeued (trace (run acts s))) = length (dequeued (trace s)) \<Longrightarrow>
   returned (trace (run acts s)) = returned (trace s)"
proof (induction acts arbitrary: s)
  case Nil
  show ?case by (simp add: run_Nil)
next
  case (Cons a acts)
  have le1: "length (dequeued (trace s)) \<le> length (dequeued (trace (step a s)))"
    by (rule dequeued_length_step)
  have le2: "length (dequeued (trace (step a s))) \<le> length (dequeued (trace (run acts (step a s))))"
    by (rule dequeued_length_run)
  from Cons.prems(3) have e: "length (dequeued (trace (run acts (step a s)))) = length (dequeued (trace s))"
    by (simp add: run_Cons)
  from le1 le2 e have e1: "length (dequeued (trace (step a s))) = length (dequeued (trace s))"
    by simp
  with e have e2: "length (dequeued (trace (run acts (step a s)))) = length (dequeued (trace (step a s)))"
    by simp
  from full_step [OF Cons.prems(1,2) e1]
  have r: "returned (trace (step a s)) = returned (trace s)"
    and f: "length (buf (step a s)) = qcap (step a s)" by simp_all
  have "returned (trace (run acts (step a s))) = returned (trace (step a s))"
    using Cons.IH [OF shape_step [OF Cons.prems(1)] f e2] .
  with r show ?case by (simp add: run_Cons)
qed

lemma release_first:
  assumes "shape s" and "sendq s = q # qs" and "at (workers s ! 0) = Ready"
  shows "returned (trace (worker_step 0 e s)) = returned (trace s) @ [(q, Write_result q)] \<and>
         sendq (worker_step 0 e s) = qs \<and>
         length (dequeued (trace (worker_step 0 e s))) = Suc (length (dequeued (trace s)))"
proof -
  obtain w where w: "workers s = [w]" using assms(1) one_worker by blast
  with assms show ?thesis
    by (cases "buf s") (simp_all add: worker_step_def chanrecv_def proj_append)
qed

section \<open>Properties of the asynchronous writer: the claims\<close>

lemma sink_goto: "map sink (goto i c ws) = map sink ws"
proof (cases "i < length ws")
  case True
  then show ?thesis
    by (simp add: goto_def map_update list_update_same_conv)
next
  case False
  then have "ws[i := (ws ! i)\<lparr>at := c\<rparr>] = ws" by (simp add: list_update_beyond)
  then show ?thesis by (simp add: goto_def)
qed

lemma sink_step: "map sink (workers (step a s)) = map sink (workers s)"
  by (cases a)
    (auto simp: Write_def chansend_def worker_step_def chanrecv_def sink_goto
      split: list.splits pc.splits)

lemma sink_run: "map sink (workers (run acts s)) = map sink (workers s)"
  by (induction acts arbitrary: s) (simp_all add: run_Nil run_Cons sink_step)

lemma returned_by_calls:
  assumes "accounted s"
  shows "returned (trace s) =
    map (\<lambda>q. (q, Write_result q)) (take (length (returned (trace s))) (called (trace s)))"
proof -
  let ?X = "to_file (trace s) @ half_written s @ holding s @ buf s"
  from assms have r: "returned (trace s) = map (\<lambda>q. (q, Write_result q)) ?X"
    and c: "called (trace s) = ?X @ sendq s"
    by (simp_all add: accounted_nf)
  from r have "length (returned (trace s)) = length ?X"
    by (metis length_map)
  with c have "take (length (returned (trace s))) (called (trace s)) = ?X"
    by simp
  with r show ?thesis by simp
qed

lemma writes_prefix:
  assumes "accounted s"
  shows "prefix (writes (trace s)) (pairs (dequeued (trace s)))"
proof -
  from assms have w: "writes (trace s) = pairs (to_file (trace s)) @ map Inl (half_written s)"
    and d: "dequeued (trace s) = to_file (trace s) @ half_written s @ holding s"
    by (simp_all add: accounted_nf)
  have "prefix (map Inl (half_written s)) (pairs (half_written s @ holding s))"
    by (cases "at (workers s ! 0)") (simp_all add: half_written_def pairs_def)
  with w d show ?thesis
    by (simp add: pairs_append)
qed

lemma pairs_prefix: "prefix xs ys \<Longrightarrow> prefix (pairs xs) (pairs ys)"
  by (auto simp: prefix_def pairs_append)

lemma sinks_used_append: "sinks_used (xs @ ys) = sinks_used xs @ sinks_used ys"
  by (induction xs rule: sinks_used.induct) simp_all

lemma sinks_step:
  "set (sinks_used (trace (step a s))) \<subseteq> set (sinks_used (trace s)) \<union> set (map sink (workers s))"
proof (cases a)
  case (CallWrite p)
  then show ?thesis
    by (auto simp: Write_def chansend_def sinks_used_append split: list.splits)
next
  case (WorkerStep i e)
  show ?thesis
  proof (cases "length (workers s) \<le> i")
    case True
    with WorkerStep show ?thesis by (simp add: worker_step_def)
  next
    case False
    then have "sink (workers s ! i) \<in> set (map sink (workers s))" by simp
    with False WorkerStep show ?thesis
      by (cases "at (workers s ! i)")
        (auto simp: worker_step_def chanrecv_def sinks_used_append split: list.splits)
  qed
qed

lemma sinks_run:
  "set (sinks_used (trace (run acts s))) \<subseteq> set (sinks_used (trace s)) \<union> set (map sink (workers s))"
proof (induction acts arbitrary: s)
  case Nil
  show ?case by (simp add: run_Nil)
next
  case (Cons a acts)
  have "set (sinks_used (trace (run acts (step a s)))) \<subseteq>
      set (sinks_used (trace (step a s))) \<union> set (map sink (workers (step a s)))"
    by (rule Cons.IH)
  also have "\<dots> \<subseteq> set (sinks_used (trace s)) \<union> set (map sink (workers s))"
    using sinks_step [of a s] by (simp add: sink_step)
  finally show ?case by (simp add: run_Cons)
qed

lemma sinks_init:
  assumes "NewBufwriter lim n logFile = Inr s0"
  shows "set (sinks_used (trace (run acts s0))) \<subseteq>
    {\<lparr>Filename = logFile, MaxSize = 500, MaxAge = 7, MaxBackups = 10,
      LocalTime = False, Compress = False\<rparr>}"
proof -
  from assms have "trace s0 = []" and "map sink (workers s0) =
      [\<lparr>Filename = logFile, MaxSize = 500, MaxAge = 7, MaxBackups = 10,
        LocalTime = False, Compress = False\<rparr>]"
    by (auto simp: NewBufwriter_def Let_def split: if_splits)
  with sinks_run [of acts s0] show ?thesis by simp
qed

text \<open>
  C6, as amended. For every capacity \<open>n\<close> that is not negative and that the runtime can
  allocate, and every file path, \<open>NewBufwriter\<close> allocates a queue of capacity exactly
  \<open>n\<close>, empty, and a rotating-file sink of 500 MB, 10 backups, 7 days and no
  compression, and starts one worker that stands at the receive. Under every schedule
  the writer keeps that one worker and that sink, the capacity stays \<open>n\<close>, the buffer
  stays within it, and every buffer passed to \<open>Write\<close> is either still queued or was
  dequeued by the worker: nothing else reads the queue. For any other \<open>n\<close> the call
  panics in \<open>make\<close>.
\<close>

theorem NewBufwriter_allocates:
  "(if 0 \<le> n \<and> n \<le> lim
    then (case NewBufwriter lim n logFile of
            Inl p \<Rightarrow> False
          | Inr s \<Rightarrow>
              int (qcap s) = n \<and> buf s = [] \<and> sendq s = [] \<and> recvq s = [] \<and> trace s = [] \<and>
              workers s =
                [\<lparr>at = Ready,
                  sink = \<lparr>Filename = logFile, MaxSize = 500, MaxAge = 7, MaxBackups = 10,
                          LocalTime = False, Compress = False\<rparr>\<rparr>] \<and>
              length (workers (run acts s)) = 1 \<and>
              map sink (workers (run acts s)) = map sink (workers s) \<and>
              qcap (run acts s) = qcap s \<and>
              length (buf (run acts s)) \<le> qcap s \<and>
              called (trace (run acts s)) =
                dequeued (trace (run acts s)) @ buf (run acts s) @ sendq (run acts s))
    else NewBufwriter lim n logFile = Inl MakechanSizeOutOfRange)"
proof (cases "0 \<le> n \<and> n \<le> lim")
  case False
  then show ?thesis by (auto simp: NewBufwriter_def)
next
  case True
  then obtain s where s: "NewBufwriter lim n logFile = Inr s"
    by (auto simp: NewBufwriter_def Let_def)
  have inv: "shape (run acts s)" "accounted (run acts s)"
    using init_invariants [OF s] by simp_all
  have "length (workers (run acts s)) = 1" and "length (buf (run acts s)) \<le> qcap s"
    using inv(1) by (simp_all add: shape_def qcap_run)
  moreover have "called (trace (run acts s)) =
      dequeued (trace (run acts s)) @ buf (run acts s) @ sendq (run acts s)"
    using inv(2) by (simp add: accounted_def)
  moreover have "int (qcap s) = n \<and> buf s = [] \<and> sendq s = [] \<and> recvq s = [] \<and> trace s = [] \<and>
      workers s =
        [\<lparr>at = Ready,
          sink = \<lparr>Filename = logFile, MaxSize = 500, MaxAge = 7, MaxBackups = 10,
                  LocalTime = False, Compress = False\<rparr>\<rparr>]"
    using s True by (auto simp: NewBufwriter_def Let_def)
  ultimately show ?thesis
    using True s by (simp add: sink_run qcap_run)
qed

theorem NewBufwriter_allocates_witness:
  "NewBufwriter 11728124029606 1 ''app.log'' = Inr example_writer \<and>
   qcap example_writer = 1 \<and>
   map sink (workers (run [CallWrite [1, 2, 3], WorkerStep 0 None] example_writer)) =
     [\<lparr>Filename = ''app.log'', MaxSize = 500, MaxAge = 7, MaxBackups = 10,
       LocalTime = False, Compress = False\<rparr>] \<and>
   dequeued (trace (run [CallWrite [1, 2, 3], WorkerStep 0 None] example_writer)) = [[1, 2, 3]]"
  using NewBufwriter_allocates [of 1 11728124029606 "''app.log''"
      "[CallWrite [1, 2, 3], WorkerStep 0 None]"]
  by (simp add: NewBufwriter_def example_writer_def run_Nil run_Cons Write_def chansend_def
      worker_step_def chanrecv_def goto_def)

text \<open>With \<open>n = -1\<close> the call panics in \<open>make\<close>: there is no queue.\<close>

theorem NewBufwriter_allocates_counterexample:
  "NewBufwriter 11728124029606 (-1) ''app.log'' = Inl MakechanSizeOutOfRange"
  by (simp add: NewBufwriter_def)

text \<open>
  C1. On a writer made by \<open>NewBufwriter\<close>, in any state a schedule can reach,
  \<open>Write(p)\<close> puts \<open>p\<close> itself, unmodified, at the back of the channel: the sequence
  of buffers that have passed or are waiting (dequeued, buffered, held by parked senders)
  grows by exactly \<open>p\<close>. If the send can complete at once the call returns
  \<open>(len(p), nil)\<close> at once; otherwise the caller parks with \<open>p\<close>. Every call that has
  returned returned \<open>(len(q), nil)\<close> for its own buffer \<open>q\<close>, in call order. Once the
  worker has taken the steps it has left, whatever errors \<open>es\<close> its writes return, every
  call including this one has returned \<open>(len, nil)\<close>. The returns of a schedule are the
  same with every downstream write succeeding.
\<close>

theorem Write_returns_length:
  assumes "NewBufwriter lim n logFile = Inr s0"
  shows "let s = run acts s0 in
     called (trace (Write p s)) = called (trace s) @ [p] \<and>
     dequeued (trace (Write p s)) @ buf (Write p s) @ sendq (Write p s) =
       (dequeued (trace s) @ buf s @ sendq s) @ [p] \<and>
     (if recvq s \<noteq> [] \<or> length (buf s) < qcap s
      then returned (trace (Write p s)) = returned (trace s) @ [(p, (int (length p), None))]
      else returned (trace (Write p s)) = returned (trace s) \<and>
           sendq (Write p s) = sendq s @ [p]) \<and>
     returned (trace s) =
       map (\<lambda>q. (q, (int (length q), None)))
         (take (length (returned (trace s))) (called (trace s))) \<and>
     (steps_left (Write p s) \<le> length es \<longrightarrow>
        returned (trace (run (map (WorkerStep 0) es) (Write p s))) =
          map (\<lambda>q. (q, (int (length q), None))) (called (trace s) @ [p])) \<and>
     returned (trace (run (map no_fail acts) s0)) = returned (trace s)"
proof -
  define s where "s = run acts s0"
  have sh: "shape s" and ac: "accounted s"
    using init_invariants [OF assms] by (simp_all add: s_def)
  have sh': "shape (Write p s)" and ac': "accounted (Write p s)"
    using sh ac by (simp_all add: shape_Write accounted_Write)
  have c1: "called (trace (Write p s)) = called (trace s) @ [p]"
    by (rule called_Write)
  have c2: "dequeued (trace (Write p s)) @ buf (Write p s) @ sendq (Write p s) =
      (dequeued (trace s) @ buf s @ sendq s) @ [p]"
    using ac ac' c1 by (simp add: accounted_def)
  have c3: "if recvq s \<noteq> [] \<or> length (buf s) < qcap s
      then returned (trace (Write p s)) = returned (trace s) @ [(p, (int (length p), None))]
      else returned (trace (Write p s)) = returned (trace s) \<and>
           sendq (Write p s) = sendq s @ [p]"
  proof (cases "recvq s \<noteq> [] \<or> length (buf s) < qcap s")
    case True
    then show ?thesis
      using Write_at_once [of s p] by (simp add: Write_result_def)
  next
    case False
    then show ?thesis
      using Write_parks [of s p] by (simp add: returned_append)
  qed
  have c4: "returned (trace s) =
      map (\<lambda>q. (q, (int (length q), None)))
        (take (length (returned (trace s))) (called (trace s)))"
    using returned_by_calls [OF ac] by (simp add: Write_result_def)
  have c5: "steps_left (Write p s) \<le> length es \<longrightarrow>
      returned (trace (run (map (WorkerStep 0) es) (Write p s))) =
        map (\<lambda>q. (q, (int (length q), None))) (called (trace s) @ [p])"
    using all_done [OF sh' ac', of es] c1 by (simp add: Write_result_def)
  have "run (map no_fail acts) s0 = calm s"
    using calm_run [of acts s0] calm_init [OF assms] by (simp add: s_def)
  then have c6: "returned (trace (run (map no_fail acts) s0)) = returned (trace s)"
    by (simp add: calm_def returned_calm)
  from c1 c2 c3 c4 c5 c6 show ?thesis
    unfolding Let_def s_def [symmetric] by blast
qed

theorem Write_returns_length_witness:
  "NewBufwriter 1024 1 ''app.log'' = Inr example_writer \<and>
   steps_left (Write [4, 5] (run [CallWrite [1, 2, 3]] example_writer)) = 6 \<and>
   sendq (Write [4, 5] (run [CallWrite [1, 2, 3]] example_writer)) = [[4, 5]] \<and>
   returned (trace (Write [4, 5] (run [CallWrite [1, 2, 3]] example_writer))) =
     [([1, 2, 3], (3, None))] \<and>
   returned (trace (run (map (WorkerStep 0) [None, Some ''disk full'', None, None, None, None])
     (Write [4, 5] (run [CallWrite [1, 2, 3]] example_writer)))) =
     [([1, 2, 3], (3, None)), ([4, 5], (2, None))]"
proof -
  have h: "NewBufwriter 1024 1 ''app.log'' = Inr example_writer"
    by (simp add: NewBufwriter_def example_writer_def)
  have e: "run [CallWrite [1, 2, 3]] example_writer =
      example_writer\<lparr>buf := [[1, 2, 3]],
        trace := [Called [1, 2, 3], Returned [1, 2, 3] (3, None)]\<rparr>"
    by (simp add: example_writer_def run_Nil run_Cons Write_def chansend_def Write_result_def)
  have w: "Write [4, 5] (run [CallWrite [1, 2, 3]] example_writer) =
      example_writer\<lparr>buf := [[1, 2, 3]], sendq := [[4, 5]],
        trace := [Called [1, 2, 3], Returned [1, 2, 3] (3, None), Called [4, 5]]\<rparr>"
    by (simp add: e) (simp add: example_writer_def Write_def chansend_def)
  have l: "steps_left (Write [4, 5] (run [CallWrite [1, 2, 3]] example_writer)) = 6"
    by (simp add: w) (simp add: example_writer_def steps_left_def)
  have "steps_left (Write [4, 5] (run [CallWrite [1, 2, 3]] example_writer)) \<le>
      length [None, Some ''disk full'', None, None, None, None :: string option]"
    by (simp add: l)
  with Write_returns_length [OF h, of "[CallWrite [1, 2, 3]]" "[4, 5]"
      "[None, Some ''disk full'', None, None, None, None]"]
  have "returned (trace (run (map (WorkerStep 0) [None, Some ''disk full'', None, None, None, None])
      (Write [4, 5] (run [CallWrite [1, 2, 3]] example_writer)))) =
      map (\<lambda>q. (q, (int (length q), None)))
        (called (trace (run [CallWrite [1, 2, 3]] example_writer)) @ [[4, 5]])"
    unfolding Let_def by blast
  then have r: "returned (trace (run (map (WorkerStep 0) [None, Some ''disk full'', None, None, None, None])
      (Write [4, 5] (run [CallWrite [1, 2, 3]] example_writer)))) =
      [([1, 2, 3], (3, None)), ([4, 5], (2, None))]"
    by (simp add: e)
  have q: "sendq (Write [4, 5] (run [CallWrite [1, 2, 3]] example_writer)) = [[4, 5]]"
    by (simp add: w)
  have t: "returned (trace (Write [4, 5] (run [CallWrite [1, 2, 3]] example_writer))) =
      [([1, 2, 3], (3, None))]"
    by (simp add: w)
  from h l q t r show ?thesis by blast
qed

text \<open>
  C2. On a writer made by \<open>NewBufwriter\<close>, under every schedule: the buffers the worker
  has dequeued are, in order, the first buffers passed to \<open>Write\<close>, and the rest are still
  queued in call order; the writes the worker has made are, in order, standard output then
  file for the first dequeued buffer, standard output then file for the second, and so
  on; every file write goes to the sink \<open>NewBufwriter\<close> configured. The errors the writes return change nothing but what the trace records of them:
  the same schedule with every write succeeding reaches the same state, so a failed file
  write stops no later write to standard output. And once the worker has taken the steps
  it has left, whatever errors \<open>es\<close> its writes return, every buffer passed to \<open>Write\<close> has
  been written to both destinations in call order.
\<close>

theorem worker_fifo_stdout_then_file:
  assumes "NewBufwriter lim n logFile = Inr s0"
  shows "let s = run acts s0 in
     called (trace s) = dequeued (trace s) @ buf s @ sendq s \<and>
     prefix (dequeued (trace s)) (called (trace s)) \<and>
     prefix (to_stdout (trace s)) (called (trace s)) \<and>
     prefix (writes (trace s)) (pairs (dequeued (trace s))) \<and>
     prefix (writes (trace s)) (pairs (called (trace s))) \<and>
     set (sinks_used (trace s)) \<subseteq>
       {\<lparr>Filename = logFile, MaxSize = 500, MaxAge = 7, MaxBackups = 10,
         LocalTime = False, Compress = False\<rparr>} \<and>
     run (map no_fail acts) s0 = calm s \<and>
     to_stdout (trace (run (map no_fail acts) s0)) = to_stdout (trace s) \<and>
     (steps_left s \<le> length es \<longrightarrow>
        writes (trace (run (map (WorkerStep 0) es) s)) = pairs (called (trace s)) \<and>
        to_stdout (trace (run (map (WorkerStep 0) es) s)) = called (trace s) \<and>
        to_file (trace (run (map (WorkerStep 0) es) s)) = called (trace s))"
proof -
  define s where "s = run acts s0"
  have sh: "shape s" and ac: "accounted s"
    using init_invariants [OF assms] by (simp_all add: s_def)
  have c1: "called (trace s) = dequeued (trace s) @ buf s @ sendq s"
    using ac by (simp add: accounted_def)
  then have c2: "prefix (dequeued (trace s)) (called (trace s))"
    by (simp add: prefix_def)
  have "dequeued (trace s) = to_stdout (trace s) @ holding s"
    using ac by (simp add: accounted_def)
  with c1 have c3: "prefix (to_stdout (trace s)) (called (trace s))"
    by (simp add: prefix_def)
  have c4: "prefix (writes (trace s)) (pairs (dequeued (trace s)))"
    using ac by (rule writes_prefix)
  have c5: "prefix (writes (trace s)) (pairs (called (trace s)))"
    using c4 pairs_prefix [OF c2] by (rule prefix_order.trans)
  have c9: "set (sinks_used (trace s)) \<subseteq>
      {\<lparr>Filename = logFile, MaxSize = 500, MaxAge = 7, MaxBackups = 10,
        LocalTime = False, Compress = False\<rparr>}"
    using sinks_init [OF assms] by (simp add: s_def)
  have c6: "run (map no_fail acts) s0 = calm s"
    using calm_run [of acts s0] calm_init [OF assms] by (simp add: s_def)
  then have c7: "to_stdout (trace (run (map no_fail acts) s0)) = to_stdout (trace s)"
    by (simp add: calm_def to_stdout_calm)
  have c8: "steps_left s \<le> length es \<longrightarrow>
      writes (trace (run (map (WorkerStep 0) es) s)) = pairs (called (trace s)) \<and>
      to_stdout (trace (run (map (WorkerStep 0) es) s)) = called (trace s) \<and>
      to_file (trace (run (map (WorkerStep 0) es) s)) = called (trace s)"
    using all_done [OF sh ac, of es] by simp
  from c1 c2 c3 c4 c5 c6 c7 c8 c9 show ?thesis
    unfolding Let_def s_def [symmetric] by blast
qed

theorem worker_fifo_stdout_then_file_witness:
  "NewBufwriter 1024 1 ''app.log'' = Inr example_writer \<and>
   steps_left (run [CallWrite [1, 2, 3], CallWrite [4, 5]] example_writer) = 6 \<and>
   writes (trace (run (map (WorkerStep 0) [None, None, Some ''disk full'', None, None, None])
     (run [CallWrite [1, 2, 3], CallWrite [4, 5]] example_writer))) =
     [Inl [1, 2, 3], Inr [1, 2, 3], Inl [4, 5], Inr [4, 5]]"
proof -
  have h: "NewBufwriter 1024 1 ''app.log'' = Inr example_writer"
    by (simp add: NewBufwriter_def example_writer_def)
  have e: "run [CallWrite [1, 2, 3], CallWrite [4, 5]] example_writer =
      example_writer\<lparr>buf := [[1, 2, 3]], sendq := [[4, 5]],
        trace := [Called [1, 2, 3], Returned [1, 2, 3] (3, None), Called [4, 5]]\<rparr>"
    by (simp add: example_writer_def run_Nil run_Cons Write_def chansend_def Write_result_def)
  have l: "steps_left (run [CallWrite [1, 2, 3], CallWrite [4, 5]] example_writer) = 6"
    by (simp add: e) (simp add: example_writer_def steps_left_def)
  have "steps_left (run [CallWrite [1, 2, 3], CallWrite [4, 5]] example_writer) \<le>
      length [None, None, Some ''disk full'', None, None, None :: string option]"
    by (simp add: l)
  with worker_fifo_stdout_then_file [OF h, of "[CallWrite [1, 2, 3], CallWrite [4, 5]]"
      "[None, None, Some ''disk full'', None, None, None]"]
  have "writes (trace (run (map (WorkerStep 0) [None, None, Some ''disk full'', None, None, None])
      (run [CallWrite [1, 2, 3], CallWrite [4, 5]] example_writer))) =
      pairs (called (trace (run [CallWrite [1, 2, 3], CallWrite [4, 5]] example_writer)))"
    unfolding Let_def by blast
  then have "writes (trace (run (map (WorkerStep 0) [None, None, Some ''disk full'', None, None, None])
      (run [CallWrite [1, 2, 3], CallWrite [4, 5]] example_writer))) =
      [Inl [1, 2, 3], Inr [1, 2, 3], Inl [4, 5], Inr [4, 5]]"
    by (simp add: e pairs_def)
  with h l show ?thesis by blast
qed

text \<open>
  C7. On a writer made by \<open>NewBufwriter\<close>, in any state a schedule can reach in which
  the queue holds as many buffers as its capacity: a call of \<open>Write\<close> parks the caller,
  with its buffer kept and nothing returned, whenever no receiver is parked, which is
  always so when the capacity is not zero; however the schedule goes on, no call returns
  before the worker dequeues; and once the worker has taken the steps it has left,
  whatever errors \<open>es\<close> its writes return, the call has returned \<open>(len(p), nil)\<close> and its
  buffer has been written: it was not dropped and no error was returned. A receive of
  the worker releases the sender parked first, which then returns \<open>(len(q), nil)\<close>. The
  buffer never holds more than the capacity; with capacity 1 a first \<open>Write\<close> on the new
  writer is accepted and returns, and a second one parks.
\<close>

theorem Write_blocks_when_full:
  assumes "NewBufwriter lim n logFile = Inr s0"
  shows "let s = run acts s0 in
     (length (buf s) = qcap s \<longrightarrow>
        (recvq s = [] \<longrightarrow>
           Write p s = s\<lparr>sendq := sendq s @ [p], trace := trace s @ [Called p]\<rparr>) \<and>
        (0 < qcap s \<longrightarrow> recvq s = []) \<and>
        (length (dequeued (trace (run rest (Write p s)))) = length (dequeued (trace s)) \<longrightarrow>
           returned (trace (run rest (Write p s))) = returned (trace s)) \<and>
        (steps_left (Write p s) \<le> length es \<longrightarrow>
           returned (trace (run (map (WorkerStep 0) es) (Write p s))) =
             map (\<lambda>q. (q, (int (length q), None))) (called (trace s) @ [p]) \<and>
           to_file (trace (run (map (WorkerStep 0) es) (Write p s))) = called (trace s) @ [p] \<and>
           sendq (run (map (WorkerStep 0) es) (Write p s)) = [])) \<and>
     (sendq s = q # qs \<and> at (workers s ! 0) = Ready \<longrightarrow>
        returned (trace (worker_step 0 e s)) = returned (trace s) @ [(q, (int (length q), None))] \<and>
        sendq (worker_step 0 e s) = qs \<and>
        length (dequeued (trace (worker_step 0 e s))) = Suc (length (dequeued (trace s)))) \<and>
     length (buf s) \<le> qcap s \<and>
     (n = 1 \<longrightarrow>
        Write p1 s0 =
          s0\<lparr>buf := [p1], trace := [Called p1, Returned p1 (int (length p1), None)]\<rparr> \<and>
        Write p2 (Write p1 s0) =
          s0\<lparr>buf := [p1], sendq := [p2],
             trace := [Called p1, Returned p1 (int (length p1), None), Called p2]\<rparr>)"
proof -
  define s where "s = run acts s0"
  have sh: "shape s" and ac: "accounted s"
    using init_invariants [OF assms] by (simp_all add: s_def)
  have sh': "shape (Write p s)" and ac': "accounted (Write p s)"
    using sh ac by (simp_all add: shape_Write accounted_Write)
  have a1: "length (buf s) = qcap s \<longrightarrow> recvq s = [] \<longrightarrow>
      Write p s = s\<lparr>sendq := sendq s @ [p], trace := trace s @ [Called p]\<rparr>"
    using Write_parks [of s p] by simp
  have a2: "length (buf s) = qcap s \<longrightarrow> 0 < qcap s \<longrightarrow> recvq s = []"
    using sh by (auto simp: shape_def split: if_splits)
  have a3: "length (buf s) = qcap s \<longrightarrow>
      length (dequeued (trace (run rest (Write p s)))) = length (dequeued (trace s)) \<longrightarrow>
      returned (trace (run rest (Write p s))) = returned (trace s)"
    using full_run [OF sh, of "CallWrite p # rest"] by (simp add: run_Cons)
  have a4: "steps_left (Write p s) \<le> length es \<longrightarrow>
      returned (trace (run (map (WorkerStep 0) es) (Write p s))) =
        map (\<lambda>q. (q, (int (length q), None))) (called (trace s) @ [p]) \<and>
      to_file (trace (run (map (WorkerStep 0) es) (Write p s))) = called (trace s) @ [p] \<and>
      sendq (run (map (WorkerStep 0) es) (Write p s)) = []"
    using all_done [OF sh' ac', of es] by (simp add: called_Write Write_result_def)
  have b: "sendq s = q # qs \<and> at (workers s ! 0) = Ready \<longrightarrow>
      returned (trace (worker_step 0 e s)) = returned (trace s) @ [(q, (int (length q), None))] \<and>
      sendq (worker_step 0 e s) = qs \<and>
      length (dequeued (trace (worker_step 0 e s))) = Suc (length (dequeued (trace s)))"
    using release_first [OF sh, of q qs e] by (simp add: Write_result_def)
  have c: "length (buf s) \<le> qcap s"
    using sh by (simp add: shape_def)
  have d: "n = 1 \<longrightarrow>
      Write p1 s0 =
        s0\<lparr>buf := [p1], trace := [Called p1, Returned p1 (int (length p1), None)]\<rparr> \<and>
      Write p2 (Write p1 s0) =
        s0\<lparr>buf := [p1], sendq := [p2],
           trace := [Called p1, Returned p1 (int (length p1), None), Called p2]\<rparr>"
    using assms
    by (auto simp: NewBufwriter_def Let_def Write_def chansend_def Write_result_def
        split: if_splits)
  from a1 a2 a3 a4 b c d show ?thesis
    unfolding Let_def s_def [symmetric] by blast
qed

theorem Write_blocks_when_full_witness:
  "NewBufwriter 1024 1 ''app.log'' = Inr example_writer \<and>
   length (buf (run [CallWrite [1, 2, 3]] example_writer)) =
     qcap (run [CallWrite [1, 2, 3]] example_writer) \<and>
   Write [4, 5] (run [CallWrite [1, 2, 3]] example_writer) =
     example_writer\<lparr>buf := [[1, 2, 3]], sendq := [[4, 5]],
       trace := [Called [1, 2, 3], Returned [1, 2, 3] (3, None), Called [4, 5]]\<rparr> \<and>
   returned (trace (run [CallWrite [6], WorkerStep 1 None]
     (Write [4, 5] (run [CallWrite [1, 2, 3]] example_writer)))) = [([1, 2, 3], (3, None))] \<and>
   returned (trace (run (map (WorkerStep 0) [None, None, Some ''disk full'', None, None, None])
     (Write [4, 5] (run [CallWrite [1, 2, 3]] example_writer)))) =
     [([1, 2, 3], (3, None)), ([4, 5], (2, None))] \<and>
   to_file (trace (run (map (WorkerStep 0) [None, None, Some ''disk full'', None, None, None])
     (Write [4, 5] (run [CallWrite [1, 2, 3]] example_writer)))) = [[1, 2, 3], [4, 5]] \<and>
   returned (trace (worker_step 0 None
     (run [CallWrite [1, 2, 3], CallWrite [4, 5]] example_writer))) =
     [([1, 2, 3], (3, None)), ([4, 5], (2, None))]"
proof -
  let ?s = "run [CallWrite [1, 2, 3]] example_writer"
  let ?t = "run [CallWrite [1, 2, 3], CallWrite [4, 5]] example_writer"
  let ?es = "[None, None, Some ''disk full'', None, None, None :: string option]"
  have h: "NewBufwriter 1024 1 ''app.log'' = Inr example_writer"
    by (simp add: NewBufwriter_def example_writer_def)
  have e: "?s = example_writer\<lparr>buf := [[1, 2, 3]],
        trace := [Called [1, 2, 3], Returned [1, 2, 3] (3, None)]\<rparr>"
    by (simp add: example_writer_def run_Nil run_Cons Write_def chansend_def Write_result_def)
  have w: "Write [4, 5] ?s = example_writer\<lparr>buf := [[1, 2, 3]], sendq := [[4, 5]],
        trace := [Called [1, 2, 3], Returned [1, 2, 3] (3, None), Called [4, 5]]\<rparr>"
    by (simp add: e) (simp add: example_writer_def Write_def chansend_def)
  have t: "?t = Write [4, 5] ?s"
    by (simp add: run_Nil run_Cons)
  have full: "length (buf ?s) = qcap ?s"
    by (simp add: e) (simp add: example_writer_def)
  have l: "steps_left (Write [4, 5] ?s) \<le> length ?es"
    by (simp add: w) (simp add: example_writer_def steps_left_def)
  have d: "length (dequeued (trace (run [CallWrite [6], WorkerStep 1 None] (Write [4, 5] ?s)))) =
      length (dequeued (trace ?s))"
    by (simp add: w e)
      (simp add: example_writer_def run_Nil run_Cons Write_def chansend_def worker_step_def)
  have rs: "returned (trace ?s) = [([1, 2, 3], (3, None))]"
    and cs: "called (trace ?s) = [[1, 2, 3]]"
    by (simp_all add: e)
  note A = Write_blocks_when_full [OF h, of "[CallWrite [1, 2, 3]]" "[4, 5]"
      "[CallWrite [6], WorkerStep 1 None]" ?es, unfolded Let_def]
  from A full d have r1: "returned (trace (run [CallWrite [6], WorkerStep 1 None]
      (Write [4, 5] ?s))) = returned (trace ?s)"
    by blast
  from A full l have r2: "returned (trace (run (map (WorkerStep 0) ?es) (Write [4, 5] ?s))) =
      map (\<lambda>q. (q, (int (length q), None))) (called (trace ?s) @ [[4, 5]])"
    and r3: "to_file (trace (run (map (WorkerStep 0) ?es) (Write [4, 5] ?s))) =
      called (trace ?s) @ [[4, 5]]"
    by blast+
  have q: "sendq ?t = [4, 5] # [] \<and> at (workers ?t ! 0) = Ready"
    by (simp add: t w) (simp add: example_writer_def)
  note B = Write_blocks_when_full [OF h, of "[CallWrite [1, 2, 3], CallWrite [4, 5]]" _ _ _
      "[4, 5]" "[]" None, unfolded Let_def]
  from B q have r4: "returned (trace (worker_step 0 None ?t)) =
      returned (trace ?t) @ [([4, 5], (int (length [4, 5 :: 8 word]), None))]"
    by blast
  have rt: "returned (trace ?t) = [([1, 2, 3], (3, None))]"
    by (simp add: t w)
  from r1 rs have c1: "returned (trace (run [CallWrite [6], WorkerStep 1 None]
      (Write [4, 5] ?s))) = [([1, 2, 3], (3, None))]"
    by simp
  from r2 cs have c2: "returned (trace (run (map (WorkerStep 0) ?es) (Write [4, 5] ?s))) =
      [([1, 2, 3], (3, None)), ([4, 5], (2, None))]"
    by simp
  from r3 cs have c3: "to_file (trace (run (map (WorkerStep 0) ?es) (Write [4, 5] ?s))) =
      [[1, 2, 3], [4, 5]]"
    by simp
  from r4 rt have c4: "returned (trace (worker_step 0 None ?t)) =
      [([1, 2, 3], (3, None)), ([4, 5], (2, None))]"
    by simp
  from h full w c1 c2 c3 c4 show ?thesis by blast
qed

end
